theory Spec2Isabelle
  imports
    Complex_Main
    "HOL-Library.AList"
    "HOL-Library.Char_ord"
    "HOL-Library.List_Lexorder"
    "HOL-Library.Sublist"
begin

section \<open>Python data as HOL data\<close>

text \<open>
  A Python \<open>dict\<close> keeps its keys in insertion order, and several functions of the
  knowledge subsystem iterate over \<open>.items()\<close> or \<open>.values()\<close>, so a dictionary is an
  association list. \<open>d[k] = v\<close> is \<^const>\<open>AList.update\<close> (an existing key keeps its place, a
  new key goes to the end), \<open>del d[k]\<close> is \<^const>\<open>AList.delete\<close>, \<open>d.get(k)\<close> is
  \<^const>\<open>map_of\<close>, and \<open>k in d\<close> is \<open>map_of d k \<noteq> None\<close>. A dictionary of the program has
  every key once: \<open>distinct (map fst d)\<close>.

  Python floats are read as real numbers: rounding, infinities and NaN are outside the
  model. Identifiers drawn by \<open>uuid.uuid4()\<close> and the clock read by \<open>datetime.now()\<close>
  are arguments of the functions that use them.
\<close>

type_synonym ('k, 'v) dict = "('k \<times> 'v) list"

text \<open>The values a metadata or filter dictionary holds (\<open>Any\<close> in the source): \<open>None\<close>,
  strings and numbers, compared by Python's \<open>==\<close>.\<close>

datatype pyval = PNone | PStr string | PNum real

type_synonym metadata = "(string, pyval) dict"

text \<open>The exceptions the modelled code raises. Both \<open>ValueError\<close>s of the vector database are
  told apart by their message.\<close>

datatype error =
    CollectionNotFound string
  | DimensionMismatch int nat
  | ShapeMismatch
  | KeyError string
  | FloatConversion

text \<open>\<open>xs[:k]\<close> for a Python int \<open>k\<close>: a negative \<open>k\<close> counts from the end.\<close>

definition py_take :: "int \<Rightarrow> 'a list \<Rightarrow> 'a list" where
  "py_take k xs =
     (if 0 \<le> k then take (nat k) xs else take (nat (int (length xs) + k)) xs)"

text \<open>\<open>xs.sort(key=f, reverse=True)\<close>: stable, largest key first, equal keys in their
  original order.\<close>

definition sort_desc :: "('a \<Rightarrow> real) \<Rightarrow> 'a list \<Rightarrow> 'a list" where
  "sort_desc f xs = sort_key (\<lambda>x. - f x) xs"

section \<open>Vector database (\<open>knowledge/vector_database.py\<close>)\<close>

text \<open>The classes \<open>VectorCollection\<close> and \<open>VectorEntry\<close> are declared in
  \<open>knowledge/models.py\<close>; their fields are those the constructors calls of the vector
  database give.\<close>

record VectorCollection =
  collection_id :: string
  collection_name :: string
  dimension :: int
  index_type :: string

record VectorEntry =
  entry_id :: string
  entry_vector :: "real list"
  entry_item_id :: string
  entry_metadata :: metadata

record VectorDatabase =
  collections :: "(string, VectorCollection) dict"
  entries :: "(string, (string, VectorEntry) dict) dict"
  item_mapping :: "(string, (string \<times> string) list) dict"

definition vdb_init :: VectorDatabase where
  "vdb_init = \<lparr>collections = [], entries = [], item_mapping = []\<rparr>"

definition create_collection ::
  "string \<Rightarrow> string \<Rightarrow> int \<Rightarrow> string \<Rightarrow> VectorDatabase \<Rightarrow> string \<times> VectorDatabase" where
  "create_collection uuid nm dimn ity db =
     (let collection = \<lparr>collection_id = uuid, collection_name = nm, dimension = dimn,
                         index_type = ity\<rparr>
      in (uuid, db\<lparr>collections := AList.update uuid collection (collections db),
                   entries := AList.update uuid [] (entries db)\<rparr>))"

definition add_vector ::
  "string \<Rightarrow> string \<Rightarrow> real list \<Rightarrow> string \<Rightarrow> metadata option \<Rightarrow> VectorDatabase
     \<Rightarrow> (error + string) \<times> VectorDatabase" where
  "add_vector uuid cid vec iid md db =
     (case map_of (collections db) cid of
        None \<Rightarrow> (Inl (CollectionNotFound cid), db)
      | Some collection \<Rightarrow>
          if int (length vec) \<noteq> dimension collection
          then (Inl (DimensionMismatch (dimension collection) (length vec)), db)
          else
            (case map_of (entries db) cid of
               None \<Rightarrow> (Inl (KeyError cid), db)
             | Some es \<Rightarrow>
                 let entry = \<lparr>entry_id = uuid, entry_vector = vec, entry_item_id = iid,
                              entry_metadata = (case md of None \<Rightarrow> [] | Some m \<Rightarrow> m)\<rparr>;
                     old = (case map_of (item_mapping db) iid of None \<Rightarrow> [] | Some l \<Rightarrow> l)
                 in (Inr uuid,
                     db\<lparr>entries := AList.update cid (AList.update uuid entry es) (entries db),
                        item_mapping :=
                          AList.update iid (old @ [(cid, uuid)]) (item_mapping db)\<rparr>)))"

definition dot :: "real list \<Rightarrow> real list \<Rightarrow> real" where
  "dot vec1 vec2 = sum_list (map2 (*) vec1 vec2)"

definition linalg_norm :: "real list \<Rightarrow> real" where
  "linalg_norm vec = sqrt (sum_list (map (\<lambda>a. \<bar>a\<bar> * \<bar>a\<bar>) vec))"

text \<open>\<open>np.dot\<close> of two one-dimensional arrays of different lengths raises.\<close>

definition cosine_similarity :: "real list \<Rightarrow> real list \<Rightarrow> error + real" where
  "cosine_similarity vec1 vec2 =
     (if length vec1 \<noteq> length vec2 then Inl ShapeMismatch
      else
        let dot_product = dot vec1 vec2;
            norm1 = linalg_norm vec1;
            norm2 = linalg_norm vec2
        in if norm1 = 0 \<or> norm2 = 0 then Inr 0
           else Inr (dot_product / (norm1 * norm2)))"

fun matches_metadata_filter :: "metadata \<Rightarrow> metadata \<Rightarrow> bool" where
  "matches_metadata_filter md [] = True"
| "matches_metadata_filter md ((key, val) # rest) =
     (if map_of md key = None \<or> map_of md key \<noteq> Some val then False
      else matches_metadata_filter md rest)"

text \<open>Truth value of an optional dictionary: \<open>None\<close> and \<open>{}\<close> are false.\<close>

fun truthy :: "('k, 'v) dict option \<Rightarrow> bool" where
  "truthy None = False"
| "truthy (Some d) = (d \<noteq> [])"

fun the_dict :: "('k, 'v) dict option \<Rightarrow> ('k, 'v) dict" where
  "the_dict None = []"
| "the_dict (Some d) = d"

text \<open>The loop of \<open>search_vectors\<close> over the entries of the collection, in insertion
  order.\<close>

fun similarities_of ::
  "real list \<Rightarrow> real \<Rightarrow> metadata option \<Rightarrow> (string \<times> VectorEntry) list
     \<Rightarrow> error + (string \<times> real) list" where
  "similarities_of q th fm [] = Inr []"
| "similarities_of q th fm ((eid, entry) # rest) =
     (if truthy fm \<and> \<not> matches_metadata_filter (entry_metadata entry) (the_dict fm)
      then similarities_of q th fm rest
      else
        (case cosine_similarity q (entry_vector entry) of
           Inl e \<Rightarrow> Inl e
         | Inr similarity \<Rightarrow>
             (case similarities_of q th fm rest of
                Inl e \<Rightarrow> Inl e
              | Inr sims \<Rightarrow>
                  Inr (if th \<le> similarity then (eid, similarity) # sims else sims))))"

definition search_vectors ::
  "VectorDatabase \<Rightarrow> string \<Rightarrow> real list \<Rightarrow> int \<Rightarrow> real \<Rightarrow> metadata option
     \<Rightarrow> error + (string \<times> real) list" where
  "search_vectors db cid q top_k th fm =
     (case map_of (collections db) cid of
        None \<Rightarrow> Inl (CollectionNotFound cid)
      | Some collection \<Rightarrow>
          if int (length q) \<noteq> dimension collection
          then Inl (DimensionMismatch (dimension collection) (length q))
          else
            (case map_of (entries db) cid of
               None \<Rightarrow> Inl (KeyError cid)
             | Some es \<Rightarrow>
                 (case similarities_of q th fm es of
                    Inl e \<Rightarrow> Inl e
                  | Inr sims \<Rightarrow> Inr (py_take top_k (sort_desc snd sims)))))"

text \<open>The loop of \<open>search_items\<close>: the first entry of every item is kept.\<close>

fun item_results_of ::
  "(string, VectorEntry) dict \<Rightarrow> string set \<Rightarrow> (string \<times> real) list
     \<Rightarrow> error + (string \<times> real) list" where
  "item_results_of es seen [] = Inr []"
| "item_results_of es seen ((eid, score) # rest) =
     (case map_of es eid of
        None \<Rightarrow> Inl (KeyError eid)
      | Some entry \<Rightarrow>
          if entry_item_id entry \<notin> seen
          then
            (case item_results_of es (insert (entry_item_id entry) seen) rest of
               Inl e \<Rightarrow> Inl e
             | Inr res \<Rightarrow> Inr ((entry_item_id entry, score) # res))
          else item_results_of es seen rest)"

definition search_items ::
  "VectorDatabase \<Rightarrow> string \<Rightarrow> real list \<Rightarrow> int \<Rightarrow> real \<Rightarrow> metadata option
     \<Rightarrow> error + (string \<times> real) list" where
  "search_items db cid q top_k th fm =
     (case search_vectors db cid q top_k th fm of
        Inl e \<Rightarrow> Inl e
      | Inr vector_results \<Rightarrow>
          (case map_of (entries db) cid of
             None \<Rightarrow> Inl (KeyError cid)
           | Some es \<Rightarrow> item_results_of es {} vector_results))"

definition delete_vector ::
  "string \<Rightarrow> string \<Rightarrow> VectorDatabase \<Rightarrow> (error + bool) \<times> VectorDatabase" where
  "delete_vector cid eid db =
     (if map_of (collections db) cid = None then (Inr False, db)
      else
        (case map_of (entries db) cid of
           None \<Rightarrow> (Inl (KeyError cid), db)
         | Some es \<Rightarrow>
             (case map_of es eid of
                None \<Rightarrow> (Inr False, db)
              | Some entry \<Rightarrow>
                  let iid = entry_item_id entry;
                      ents = AList.update cid (AList.delete eid es) (entries db)
                  in
                    (case map_of (item_mapping db) iid of
                       None \<Rightarrow> (Inr True, db\<lparr>entries := ents\<rparr>)
                     | Some l \<Rightarrow>
                         let l' = filter (\<lambda>(c_id, e_id). c_id \<noteq> cid \<or> e_id \<noteq> eid) l;
                             m1 = AList.update iid l' (item_mapping db);
                             m2 = (if l' = [] then AList.delete iid m1 else m1)
                         in (Inr True, db\<lparr>entries := ents, item_mapping := m2\<rparr>)))))"

text \<open>The loop of \<open>delete_item_vectors\<close> over a copy of the item's reverse-index list.\<close>

fun delete_vectors_loop ::
  "(string \<times> string) list \<Rightarrow> nat \<Rightarrow> VectorDatabase \<Rightarrow> (error + nat) \<times> VectorDatabase" where
  "delete_vectors_loop [] count db = (Inr count, db)"
| "delete_vectors_loop ((cid, eid) # rest) count db =
     (case delete_vector cid eid db of
        (Inl e, db') \<Rightarrow> (Inl e, db')
      | (Inr deleted, db') \<Rightarrow>
          delete_vectors_loop rest (if deleted then count + 1 else count) db')"

definition delete_item_vectors ::
  "string \<Rightarrow> VectorDatabase \<Rightarrow> (error + nat) \<times> VectorDatabase" where
  "delete_item_vectors iid db =
     (case map_of (item_mapping db) iid of
        None \<Rightarrow> (Inr 0, db)
      | Some vectors \<Rightarrow> delete_vectors_loop vectors 0 db)"

text \<open>The loop of \<open>delete_collection\<close> over the entries of the collection.\<close>

fun unmap_entries ::
  "string \<Rightarrow> VectorEntry list \<Rightarrow> (string, (string \<times> string) list) dict
     \<Rightarrow> (string, (string \<times> string) list) dict" where
  "unmap_entries cid [] m = m"
| "unmap_entries cid (entry # rest) m =
     (case map_of m (entry_item_id entry) of
        None \<Rightarrow> unmap_entries cid rest m
      | Some l \<Rightarrow>
          let l' = filter (\<lambda>(c_id, e_id). c_id \<noteq> cid) l;
              m1 = AList.update (entry_item_id entry) l' m;
              m2 = (if l' = [] then AList.delete (entry_item_id entry) m1 else m1)
          in unmap_entries cid rest m2)"

definition delete_collection ::
  "string \<Rightarrow> VectorDatabase \<Rightarrow> (error + bool) \<times> VectorDatabase" where
  "delete_collection cid db =
     (if map_of (collections db) cid = None then (Inr False, db)
      else
        (case map_of (entries db) cid of
           None \<Rightarrow> (Inl (KeyError cid), db)
         | Some es \<Rightarrow>
             (Inr True,
              db\<lparr>item_mapping := unmap_entries cid (map snd es) (item_mapping db),
                 collections := AList.delete cid (collections db),
                 entries := AList.delete cid (entries db)\<rparr>)))"

section \<open>Memory manager (\<open>knowledge/memory_manager.py\<close>)\<close>

text \<open>The enumeration \<open>MemoryType\<close> and the classes of memory items are declared in
  \<open>knowledge/models.py\<close>. The members of \<open>MemoryType\<close> are the three the source names;
  \<open>store_item\<close> only asks whether the type is \<open>SHORT_TERM\<close>.\<close>

datatype MemoryType = SHORT_TERM | LONG_TERM | SEMANTIC

record MemoryItem =
  item_id :: string
  content :: string
  memory_type :: MemoryType
  embedding :: "real list"
  item_metadata :: metadata
  importance :: real
  access_count :: int
  last_accessed :: real

record MemoryCategory =
  category_id :: string
  category_name :: string
  description :: string
  parent_id :: "string option"
  items :: "string list"

record MemoryManager =
  short_term_memory :: "(string, MemoryItem) dict"
  long_term_memory :: "(string, MemoryItem) dict"
  categories :: "(string, MemoryCategory) dict"

definition mm_init :: MemoryManager where
  "mm_init = \<lparr>short_term_memory = [], long_term_memory = [], categories = []\<rparr>"

definition store_item :: "string \<Rightarrow> MemoryItem \<Rightarrow> MemoryManager \<Rightarrow> string \<times> MemoryManager" where
  "store_item uuid item mm =
     (let item = (if item_id item = [] then item\<lparr>item_id := uuid\<rparr> else item)
      in if memory_type item = SHORT_TERM
         then (item_id item,
               mm\<lparr>short_term_memory := AList.update (item_id item) item (short_term_memory mm)\<rparr>)
         else (item_id item,
               mm\<lparr>long_term_memory := AList.update (item_id item) item (long_term_memory mm)\<rparr>))"

definition retrieve_item ::
  "real \<Rightarrow> string \<Rightarrow> MemoryManager \<Rightarrow> MemoryItem option \<times> MemoryManager" where
  "retrieve_item now iid mm =
     (case map_of (short_term_memory mm) iid of
        Some item \<Rightarrow>
          let item = item\<lparr>last_accessed := now, access_count := access_count item + 1\<rparr>
          in (Some item, mm\<lparr>short_term_memory := AList.update iid item (short_term_memory mm)\<rparr>)
      | None \<Rightarrow>
          (case map_of (long_term_memory mm) iid of
             Some item \<Rightarrow>
               let item = item\<lparr>last_accessed := now, access_count := access_count item + 1\<rparr>
               in (Some item,
                   mm\<lparr>long_term_memory := AList.update iid item (long_term_memory mm)\<rparr>)
           | None \<Rightarrow> (None, mm)))"

definition update_item :: "MemoryItem \<Rightarrow> MemoryManager \<Rightarrow> bool \<times> MemoryManager" where
  "update_item item mm =
     (if map_of (short_term_memory mm) (item_id item) \<noteq> None
      then (True,
            mm\<lparr>short_term_memory := AList.update (item_id item) item (short_term_memory mm)\<rparr>)
      else if map_of (long_term_memory mm) (item_id item) \<noteq> None
      then (True,
            mm\<lparr>long_term_memory := AList.update (item_id item) item (long_term_memory mm)\<rparr>)
      else (False, mm))"

text \<open>\<open>if item_id in category.items: category.items.remove(item_id)\<close>, for every category:
  \<open>list.remove\<close> takes out the first occurrence.\<close>

definition purge_category :: "string \<Rightarrow> MemoryCategory \<Rightarrow> MemoryCategory" where
  "purge_category iid category =
     (if iid \<in> set (items category) then category\<lparr>items := remove1 iid (items category)\<rparr>
      else category)"

definition purge_categories ::
  "string \<Rightarrow> (string, MemoryCategory) dict \<Rightarrow> (string, MemoryCategory) dict" where
  "purge_categories iid cats = map (\<lambda>(k, category). (k, purge_category iid category)) cats"

definition delete_item :: "string \<Rightarrow> MemoryManager \<Rightarrow> bool \<times> MemoryManager" where
  "delete_item iid mm =
     (if map_of (short_term_memory mm) iid \<noteq> None
      then (True,
            mm\<lparr>short_term_memory := AList.delete iid (short_term_memory mm),
               categories := purge_categories iid (categories mm)\<rparr>)
      else if map_of (long_term_memory mm) iid \<noteq> None
      then (True,
            mm\<lparr>long_term_memory := AList.delete iid (long_term_memory mm),
               categories := purge_categories iid (categories mm)\<rparr>)
      else (False, mm))"

definition create_category ::
  "string \<Rightarrow> string \<Rightarrow> string \<Rightarrow> string option \<Rightarrow> MemoryManager \<Rightarrow> string \<times> MemoryManager" where
  "create_category uuid nm descr parent mm =
     (let category = \<lparr>category_id = uuid, category_name = nm, description = descr,
                       parent_id = parent, items = []\<rparr>
      in (uuid, mm\<lparr>categories := AList.update uuid category (categories mm)\<rparr>))"

definition add_item_to_category ::
  "string \<Rightarrow> string \<Rightarrow> MemoryManager \<Rightarrow> bool \<times> MemoryManager" where
  "add_item_to_category iid cid mm =
     (case map_of (categories mm) cid of
        None \<Rightarrow> (False, mm)
      | Some category \<Rightarrow>
          if map_of (short_term_memory mm) iid = None \<and> map_of (long_term_memory mm) iid = None
          then (False, mm)
          else if iid \<notin> set (items category)
          then (True,
                mm\<lparr>categories :=
                     AList.update cid (category\<lparr>items := items category @ [iid]\<rparr>)
                       (categories mm)\<rparr>)
          else (True, mm))"

definition move_to_long_term :: "string \<Rightarrow> MemoryManager \<Rightarrow> bool \<times> MemoryManager" where
  "move_to_long_term iid mm =
     (case map_of (short_term_memory mm) iid of
        None \<Rightarrow> (False, mm)
      | Some item \<Rightarrow>
          (True,
           mm\<lparr>long_term_memory :=
                AList.update iid (item\<lparr>memory_type := LONG_TERM\<rparr>) (long_term_memory mm),
              short_term_memory := AList.delete iid (short_term_memory mm)\<rparr>))"

definition move_to_short_term :: "string \<Rightarrow> MemoryManager \<Rightarrow> bool \<times> MemoryManager" where
  "move_to_short_term iid mm =
     (case map_of (long_term_memory mm) iid of
        None \<Rightarrow> (False, mm)
      | Some item \<Rightarrow>
          (True,
           mm\<lparr>short_term_memory :=
                AList.update iid (item\<lparr>memory_type := SHORT_TERM\<rparr>) (short_term_memory mm),
              long_term_memory := AList.delete iid (long_term_memory mm)\<rparr>))"

text \<open>\<open>optimize_memory\<close>: the ids to move are collected first, then moved one by one. The
  result object reports the ids moved; its timing fields are left out.\<close>

definition items_to_move :: "MemoryManager \<Rightarrow> string list" where
  "items_to_move mm =
     map fst (filter (\<lambda>(iid, item). importance item < 0.3 \<and> access_count item < 3)
                     (short_term_memory mm))"

fun move_all :: "string list \<Rightarrow> MemoryManager \<Rightarrow> MemoryManager" where
  "move_all [] mm = mm"
| "move_all (iid # rest) mm = move_all rest (snd (move_to_long_term iid mm))"

definition optimize_memory :: "MemoryManager \<Rightarrow> string list \<times> MemoryManager" where
  "optimize_memory mm = (items_to_move mm, move_all (items_to_move mm) mm)"

record ContextItem =
  ci_item_id :: string
  ci_content :: string
  ci_importance :: real
  recency :: real
  token_count :: int
  ci_source :: string
  ci_metadata :: metadata

record ContextWindow =
  window_id :: string
  window_items :: "ContextItem list"
  max_tokens :: int
  current_tokens :: int
  strategy :: string

text \<open>Timestamps are seconds; \<open>now\<close> is the clock at the call.\<close>

definition calculate_recency :: "real \<Rightarrow> real \<Rightarrow> real" where
  "calculate_recency now timestamp =
     (let time_diff = now - timestamp;
          r = 2 powr (- time_diff / 3600)
      in max 0 (min 1 r))"

definition estimate_token_count :: "string \<Rightarrow> int" where
  "estimate_token_count text = int (length text) div 4 + 1"

definition context_item_of :: "real \<Rightarrow> MemoryItem \<Rightarrow> ContextItem" where
  "context_item_of now item =
     \<lparr>ci_item_id = item_id item, ci_content = content item, ci_importance = importance item,
      recency = calculate_recency now (last_accessed item),
      token_count = estimate_token_count (content item),
      ci_source = ''memory'', ci_metadata = item_metadata item\<rparr>"

definition sort_by_strategy :: "string \<Rightarrow> ContextItem list \<Rightarrow> ContextItem list" where
  "sort_by_strategy strat citems =
     (if strat = ''importance_recency''
      then sort_desc (\<lambda>x. ci_importance x * 0.7 + recency x * 0.3) citems
      else if strat = ''importance'' then sort_desc ci_importance citems
      else if strat = ''recency'' then sort_desc recency citems
      else citems)"

text \<open>The selection loop: items are taken in order until the first one that does not fit,
  where the loop stops (\<open>break\<close>).\<close>

fun select_items :: "int \<Rightarrow> int \<Rightarrow> ContextItem list \<Rightarrow> ContextItem list \<times> int" where
  "select_items maxt cur [] = ([], cur)"
| "select_items maxt cur (x # rest) =
     (if cur + token_count x \<le> maxt
      then (case select_items maxt (cur + token_count x) rest of
              (sel, tot) \<Rightarrow> (x # sel, tot))
      else ([], cur))"

text \<open>The context items of all short-term items, in the order of the strategy.\<close>

definition context_items :: "real \<Rightarrow> string \<Rightarrow> MemoryManager \<Rightarrow> ContextItem list" where
  "context_items now strat mm =
     (let all_items = map snd (short_term_memory mm)
      in sort_by_strategy strat (map (context_item_of now) all_items))"

definition create_context_window ::
  "real \<Rightarrow> string \<Rightarrow> int \<Rightarrow> string \<Rightarrow> MemoryManager \<Rightarrow> ContextWindow" where
  "create_context_window now uuid maxt strat mm =
     (case select_items maxt 0 (context_items now strat mm) of
        (selected_items, tokens) \<Rightarrow>
          \<lparr>window_id = uuid, window_items = selected_items, max_tokens = maxt,
           current_tokens = tokens, strategy = strat\<rparr>)"

section \<open>Retrieval engine (\<open>knowledge/retrieval_engine.py\<close>)\<close>

text \<open>\<open>KnowledgeItem\<close>, \<open>KnowledgeQuery\<close>, \<open>KnowledgeResponse\<close> and \<open>QueryType\<close> are declared in
  \<open>knowledge/models.py\<close>; the fields are those the source reads and writes, the query types
  those \<open>process_query\<close> dispatches on. \<open>created_at\<close> may be \<open>None\<close>.\<close>

record KnowledgeItem =
  ki_item_id :: string
  ki_content :: string
  ki_source :: string
  confidence :: real
  ki_metadata :: metadata
  created_at :: "real option"

datatype QueryType = QSEMANTIC | KEYWORD | HYBRID | EXACT

record KnowledgeQuery =
  query_id :: string
  query_text :: string
  query_type :: QueryType
  filters :: "metadata option"
  top_k :: int
  threshold :: real

record KnowledgeResponse =
  response_query_id :: string
  response_items :: "KnowledgeItem list"
  scores :: "(string, real) dict"
  response_query_type :: QueryType
  result_count :: nat

text \<open>What the engine takes from outside: the embedding service (\<open>get_embedding\<close> returns a
  vector for every text: on a failure of the provider it returns the zero vector),
  Python's \<open>float(s)\<close> on a string (\<open>None\<close> where it raises), and the order in which Python
  iterates over the set of ids that \<open>_hybrid_search\<close> builds.\<close>

record services =
  get_embedding :: "string \<Rightarrow> real list"
  str_to_float :: "string \<Rightarrow> real option"
  set_order :: "string list \<Rightarrow> string list"

text \<open>\<open>str.lower\<close> and \<open>str.split\<close> on ASCII text.\<close>

definition lower_char :: "char \<Rightarrow> char" where
  "lower_char c =
     (if CHR ''A'' \<le> c \<and> c \<le> CHR ''Z'' then char_of (of_char c + (32::nat)) else c)"

definition lower :: "string \<Rightarrow> string" where
  "lower s = map lower_char s"

definition is_space :: "char \<Rightarrow> bool" where
  "is_space c =
     (c = CHR '' '' \<or> (CHR 0x09 \<le> c \<and> c \<le> CHR 0x0D) \<or> (CHR 0x1C \<le> c \<and> c \<le> CHR 0x1F))"

fun split_from :: "string \<Rightarrow> string \<Rightarrow> string list" where
  "split_from word [] = (if word = [] then [] else [word])"
| "split_from word (c # cs) =
     (if is_space c then (if word = [] then split_from [] cs else word # split_from [] cs)
      else split_from (word @ [c]) cs)"

definition split :: "string \<Rightarrow> string list" where
  "split s = split_from [] s"

text \<open>\<open>a in b\<close> on strings: \<open>a\<close> occurs in \<open>b\<close> as a contiguous piece.\<close>

fun str_contains :: "string \<Rightarrow> string \<Rightarrow> bool" where
  "str_contains b a = (prefix a b \<or> (case b of [] \<Rightarrow> False | _ # b' \<Rightarrow> str_contains b' a))"

text \<open>\<open>float(value)\<close>.\<close>

fun py_float :: "services \<Rightarrow> pyval \<Rightarrow> error + real" where
  "py_float sv (PNum r) = Inr r"
| "py_float sv (PStr s) = (case str_to_float sv s of None \<Rightarrow> Inl FloatConversion | Some r \<Rightarrow> Inr r)"
| "py_float sv PNone = Inl FloatConversion"

text \<open>\<open>_matches_filters\<close>: the loop over the filter dictionary, with the chain of
  \<open>if\<close>/\<open>elif\<close> of its body. A branch whose test fails hands over to the next one.\<close>

fun matches_filters :: "services \<Rightarrow> real \<Rightarrow> KnowledgeItem \<Rightarrow> metadata \<Rightarrow> error + bool" where
  "matches_filters sv now item [] = Inr True"
| "matches_filters sv now item ((key, val) # rest) =
     (if key = ''source'' \<and> val \<noteq> PStr (ki_source item) then Inr False
      else
        (case (if key = ''min_confidence''
               then (case py_float sv val of Inl e \<Rightarrow> Inl e | Inr v \<Rightarrow> Inr (confidence item < v))
               else Inr False) of
           Inl e \<Rightarrow> Inl e
         | Inr True \<Rightarrow> Inr False
         | Inr False \<Rightarrow>
             (case (if key = ''max_age'' then created_at item else None) of
                Some created \<Rightarrow>
                  (case py_float sv val of
                     Inl e \<Rightarrow> Inl e
                   | Inr v \<Rightarrow>
                       if (now - created) / 86400 > v then Inr False
                       else matches_filters sv now item rest)
              | None \<Rightarrow>
                  if map_of (ki_metadata item) key \<noteq> None
                     \<and> map_of (ki_metadata item) key \<noteq> Some val
                  then Inr False
                  else matches_filters sv now item rest)))"

record RetrievalEngine =
  default_collection_id :: "string option"

definition semantic_search ::
  "services \<Rightarrow> RetrievalEngine \<Rightarrow> VectorDatabase \<Rightarrow> KnowledgeQuery
     \<Rightarrow> (string, KnowledgeItem) dict \<Rightarrow> error + (string \<times> real) list" where
  "semantic_search sv eng db query items_dict =
     (case default_collection_id eng of
        None \<Rightarrow> Inr []
      | Some cid \<Rightarrow>
          if cid = [] then Inr []
          else
            (case search_items db cid (get_embedding sv (query_text query)) (top_k query)
                    (threshold query) (filters query) of
               Inl e \<Rightarrow> Inl e
             | Inr results \<Rightarrow>
                 Inr (filter (\<lambda>(iid, score). map_of items_dict iid \<noteq> None) results)))"

definition keyword_score :: "string set \<Rightarrow> string set \<Rightarrow> real" where
  "keyword_score query_tokens item_tokens =
     (if query_tokens = {} \<or> item_tokens = {} then 0
      else real (card (query_tokens \<inter> item_tokens)) / real (card query_tokens))"

text \<open>The loop of \<open>_keyword_search\<close> over the catalog.\<close>

fun keyword_scores ::
  "services \<Rightarrow> real \<Rightarrow> KnowledgeQuery \<Rightarrow> (string \<times> KnowledgeItem) list
     \<Rightarrow> error + (string \<times> real) list" where
  "keyword_scores sv now query [] = Inr []"
| "keyword_scores sv now query ((iid, item) # rest) =
     (case (if truthy (filters query)
            then matches_filters sv now item (the_dict (filters query)) else Inr True) of
        Inl e \<Rightarrow> Inl e
      | Inr False \<Rightarrow> keyword_scores sv now query rest
      | Inr True \<Rightarrow>
          (case keyword_scores sv now query rest of
             Inl e \<Rightarrow> Inl e
           | Inr found \<Rightarrow>
               let score = keyword_score (set (split (lower (query_text query))))
                                         (set (split (lower (ki_content item))))
               in Inr (if threshold query \<le> score then (iid, score) # found else found)))"

definition keyword_search ::
  "services \<Rightarrow> real \<Rightarrow> KnowledgeQuery \<Rightarrow> (string, KnowledgeItem) dict
     \<Rightarrow> error + (string \<times> real) list" where
  "keyword_search sv now query items_dict =
     (case keyword_scores sv now query items_dict of
        Inl e \<Rightarrow> Inl e
      | Inr found \<Rightarrow> Inr (py_take (top_k query) (sort_desc snd found)))"

text \<open>\<open>{item_id: score for item_id, score in results}\<close>.\<close>

definition dict_of_pairs :: "('k \<times> 'v) list \<Rightarrow> ('k, 'v) dict" where
  "dict_of_pairs ps = fold (\<lambda>(k, v) d. AList.update k v d) ps []"

definition dict_get :: "('k, real) dict \<Rightarrow> 'k \<Rightarrow> real \<Rightarrow> real" where
  "dict_get d k dflt = (case map_of d k of None \<Rightarrow> dflt | Some v \<Rightarrow> v)"

definition combined_score ::
  "(string, real) dict \<Rightarrow> (string, real) dict \<Rightarrow> string \<Rightarrow> real" where
  "combined_score semantic_scores keyword_scores_d iid =
     dict_get semantic_scores iid 0 * 0.7 + dict_get keyword_scores_d iid 0 * 0.3"

definition hybrid_search ::
  "services \<Rightarrow> real \<Rightarrow> RetrievalEngine \<Rightarrow> VectorDatabase \<Rightarrow> KnowledgeQuery
     \<Rightarrow> (string, KnowledgeItem) dict \<Rightarrow> error + (string \<times> real) list" where
  "hybrid_search sv now eng db query items_dict =
     (case semantic_search sv eng db query items_dict of
        Inl e \<Rightarrow> Inl e
      | Inr semantic_results \<Rightarrow>
          (case keyword_search sv now query items_dict of
             Inl e \<Rightarrow> Inl e
           | Inr keyword_results \<Rightarrow>
               let semantic_scores = dict_of_pairs semantic_results;
                   keyword_scores_d = dict_of_pairs keyword_results;
                   all_item_ids =
                     set_order sv (remdups (map fst semantic_scores @ map fst keyword_scores_d));
                   combined_scores =
                     filter (\<lambda>(iid, score). threshold query \<le> score)
                       (map (\<lambda>iid. (iid, combined_score semantic_scores keyword_scores_d iid))
                            all_item_ids)
               in Inr (py_take (top_k query) (sort_desc snd combined_scores))))"

text \<open>The loop of \<open>_exact_search\<close> over the catalog.\<close>

fun exact_matches ::
  "services \<Rightarrow> real \<Rightarrow> KnowledgeQuery \<Rightarrow> (string \<times> KnowledgeItem) list
     \<Rightarrow> error + (string \<times> real) list" where
  "exact_matches sv now query [] = Inr []"
| "exact_matches sv now query ((iid, item) # rest) =
     (case (if truthy (filters query)
            then matches_filters sv now item (the_dict (filters query)) else Inr True) of
        Inl e \<Rightarrow> Inl e
      | Inr False \<Rightarrow> exact_matches sv now query rest
      | Inr True \<Rightarrow>
          (case exact_matches sv now query rest of
             Inl e \<Rightarrow> Inl e
           | Inr found \<Rightarrow>
               Inr (if str_contains (lower (ki_content item)) (lower (query_text query))
                    then (iid, 1) # found else found)))"

definition exact_search ::
  "services \<Rightarrow> real \<Rightarrow> KnowledgeQuery \<Rightarrow> (string, KnowledgeItem) dict
     \<Rightarrow> error + (string \<times> real) list" where
  "exact_search sv now query items_dict =
     (case exact_matches sv now query items_dict of
        Inl e \<Rightarrow> Inl e
      | Inr found \<Rightarrow> Inr (py_take (top_k query) (sort_key fst found)))"

text \<open>The dispatch of \<open>process_query\<close> on the query type.\<close>

definition search_results ::
  "services \<Rightarrow> real \<Rightarrow> RetrievalEngine \<Rightarrow> VectorDatabase \<Rightarrow> KnowledgeQuery
     \<Rightarrow> (string, KnowledgeItem) dict \<Rightarrow> error + (string \<times> real) list" where
  "search_results sv now eng db query items_dict =
     (case query_type query of
        QSEMANTIC \<Rightarrow> semantic_search sv eng db query items_dict
      | KEYWORD \<Rightarrow> keyword_search sv now query items_dict
      | HYBRID \<Rightarrow> hybrid_search sv now eng db query items_dict
      | EXACT \<Rightarrow> exact_search sv now query items_dict)"

text \<open>\<open>[items_dict[item_id] for item_id, _ in results]\<close>.\<close>

fun lookup_items ::
  "(string, KnowledgeItem) dict \<Rightarrow> (string \<times> real) list \<Rightarrow> error + KnowledgeItem list" where
  "lookup_items items_dict [] = Inr []"
| "lookup_items items_dict ((iid, score) # rest) =
     (case map_of items_dict iid of
        None \<Rightarrow> Inl (KeyError iid)
      | Some item \<Rightarrow>
          (case lookup_items items_dict rest of
             Inl e \<Rightarrow> Inl e
           | Inr found \<Rightarrow> Inr (item # found)))"

definition process_query ::
  "services \<Rightarrow> real \<Rightarrow> RetrievalEngine \<Rightarrow> VectorDatabase \<Rightarrow> KnowledgeQuery
     \<Rightarrow> (string, KnowledgeItem) dict \<Rightarrow> error + KnowledgeResponse" where
  "process_query sv now eng db query items_dict =
     (case search_results sv now eng db query items_dict of
        Inl e \<Rightarrow> Inl e
      | Inr results \<Rightarrow>
          (case lookup_items items_dict results of
             Inl e \<Rightarrow> Inl e
           | Inr found \<Rightarrow>
               Inr \<lparr>response_query_id = query_id query, response_items = found,
                    scores = dict_of_pairs results,
                    response_query_type = query_type query,
                    result_count = length results\<rparr>))"

section \<open>Knowledge module (\<open>knowledge/knowledge_module.py\<close>)\<close>

text \<open>
  This file of the repository is not valid Python. In \<open>add_knowledge_item\<close> the metadata of
  the memory item is written \<open>{"source": source, "confidence": confidence, **metadata or {}}\<close>
  (line 113): the operand of \<open>**\<close> in a dict display cannot be an \<open>or\<close> expression, so the
  compiler rejects the file with \<open>SyntaxError\<close>, and \<open>import knowledge.knowledge_module\<close>
  raises it. No function of \<open>KnowledgeModule\<close> can run, and none is given a definition
  here. What the text of the class hands to the two modules that do compile is studied on
  those modules: \<open>add_knowledge_item\<close> is written to pass a memory item of type \<open>SEMANTIC\<close>
  to \<open>store_item\<close>, and \<open>delete_knowledge_item\<close> to call \<open>delete_item_vectors\<close> and
  \<open>delete_item\<close> on the id.
\<close>

section \<open>Sequences of memory-manager operations\<close>

datatype mm_op =
    Store string MemoryItem
  | Retrieve real string
  | Update MemoryItem
  | Delete string
  | MoveToLongTerm string
  | MoveToShortTerm string
  | Optimize

fun apply_op :: "mm_op \<Rightarrow> MemoryManager \<Rightarrow> MemoryManager" where
  "apply_op (Store uuid item) mm = snd (store_item uuid item mm)"
| "apply_op (Retrieve now iid) mm = snd (retrieve_item now iid mm)"
| "apply_op (Update item) mm = snd (update_item item mm)"
| "apply_op (Delete iid) mm = snd (delete_item iid mm)"
| "apply_op (MoveToLongTerm iid) mm = snd (move_to_long_term iid mm)"
| "apply_op (MoveToShortTerm iid) mm = snd (move_to_short_term iid mm)"
| "apply_op Optimize mm = snd (optimize_memory mm)"

fun run_ops :: "mm_op list \<Rightarrow> MemoryManager \<Rightarrow> MemoryManager" where
  "run_ops [] mm = mm"
| "run_ops (op # ops) mm = run_ops ops (apply_op op mm)"

text \<open>No id is a key of both tier maps.\<close>

definition tier_exclusive :: "MemoryManager \<Rightarrow> bool" where
  "tier_exclusive mm =
     (fst ` set (short_term_memory mm) \<inter> fst ` set (long_term_memory mm) = {})"

text \<open>The id under which \<open>store_item\<close> files an item, and the condition that this id is
  not a key of the tier the item is not stored in.\<close>

definition stored_id :: "string \<Rightarrow> MemoryItem \<Rightarrow> string" where
  "stored_id uuid item = (if item_id item = [] then uuid else item_id item)"

fun store_fresh :: "mm_op \<Rightarrow> MemoryManager \<Rightarrow> bool" where
  "store_fresh (Store uuid item) mm =
     (if memory_type item = SHORT_TERM
      then map_of (long_term_memory mm) (stored_id uuid item) = None
      else map_of (short_term_memory mm) (stored_id uuid item) = None)"
| "store_fresh _ mm = True"

fun stores_fresh :: "mm_op list \<Rightarrow> MemoryManager \<Rightarrow> bool" where
  "stores_fresh [] mm = True"
| "stores_fresh (op # ops) mm = (store_fresh op mm \<and> stores_fresh ops (apply_op op mm))"

text \<open>A list of scores that never goes up.\<close>

definition non_increasing :: "real list \<Rightarrow> bool" where
  "non_increasing xs = sorted_wrt (\<lambda>a b. b \<le> a) xs"

text \<open>Every memory item is filed under its own id, in both tiers.\<close>

definition filed_by_id :: "(string, MemoryItem) dict \<Rightarrow> bool" where
  "filed_by_id d = list_all (\<lambda>(k, item). item_id item = k) d"

definition ids_consistent :: "MemoryManager \<Rightarrow> bool" where
  "ids_consistent mm =
     (filed_by_id (short_term_memory mm) \<and> filed_by_id (long_term_memory mm))"

text \<open>The operations that file an item under the id \<open>iid\<close> in the short-term tier: a move
  of \<open>iid\<close> to the short-term tier, and a store of a short-term item under \<open>iid\<close>.\<close>

fun enters_short_term :: "string \<Rightarrow> mm_op \<Rightarrow> bool" where
  "enters_short_term iid (MoveToShortTerm j) = (j = iid)"
| "enters_short_term iid (Store uuid item) =
     (memory_type item = SHORT_TERM \<and> stored_id uuid item = iid)"
| "enters_short_term iid _ = False"

section \<open>Consistency of the reverse index and of the categories\<close>

text \<open>\<open>get_item_vectors\<close> of the vector database: \<open>self.item_mapping.get(item_id, [])\<close>.\<close>

definition get_item_vectors :: "string \<Rightarrow> VectorDatabase \<Rightarrow> (string \<times> string) list" where
  "get_item_vectors iid db = (case map_of (item_mapping db) iid of None \<Rightarrow> [] | Some l \<Rightarrow> l)"

text \<open>The entry stored under an entry id in a collection, if any.\<close>

definition entry_at :: "VectorDatabase \<Rightarrow> string \<Rightarrow> string \<Rightarrow> VectorEntry option" where
  "entry_at db cid eid = (case map_of (entries db) cid of None \<Rightarrow> None | Some es \<Rightarrow> map_of es eid)"

text \<open>The vectors stored for an item, over all collections, as pairs of collection id and
  entry id.\<close>

definition vectors_of_item :: "VectorDatabase \<Rightarrow> string \<Rightarrow> (string \<times> string) set" where
  "vectors_of_item db iid =
     {(cid, eid). \<exists>entry. entry_at db cid eid = Some entry \<and> entry_item_id entry = iid}"

text \<open>The invariant of the vector database: the reverse index lists, for every item and
  without repetition, exactly the entries stored for it; it has no empty list; and the
  collections and the entry tables have the same keys.\<close>

definition vdb_inv :: "VectorDatabase \<Rightarrow> bool" where
  "vdb_inv db =
     ((\<forall>iid. distinct (get_item_vectors iid db))
      \<and> (\<forall>iid. set (get_item_vectors iid db) = vectors_of_item db iid)
      \<and> (\<forall>iid. map_of (item_mapping db) iid \<noteq> Some [])
      \<and> (\<forall>cid. map_of (collections db) cid = None \<longleftrightarrow> map_of (entries db) cid = None))"

text \<open>The invariant of the categories: a category lists an item at most once, and only
  items of the two tiers.\<close>

definition memory_ids :: "MemoryManager \<Rightarrow> string set" where
  "memory_ids mm = fst ` set (short_term_memory mm) \<union> fst ` set (long_term_memory mm)"

definition category_ok :: "string set \<Rightarrow> MemoryCategory \<Rightarrow> bool" where
  "category_ok ids category = (distinct (items category) \<and> set (items category) \<subseteq> ids)"

definition categories_wf :: "MemoryManager \<Rightarrow> bool" where
  "categories_wf mm =
     list_all (\<lambda>(k, category). category_ok (memory_ids mm) category) (categories mm)"

section \<open>Example states\<close>

text \<open>A database with one collection of dimension 3 and no entry.\<close>

definition db_dim3 :: VectorDatabase where
  "db_dim3 = snd (create_collection ''c1'' ''docs'' 3 ''flat'' vdb_init)"

text \<open>A collection of dimension 2 in which item \<open>A\<close> has two entries and item \<open>B\<close> one.\<close>

definition db_chunks :: VectorDatabase where
  "db_chunks =
     snd (add_vector ''e3'' ''c1'' [0, 1] ''B'' None
       (snd (add_vector ''e2'' ''c1'' [1, 0] ''A'' None
         (snd (add_vector ''e1'' ''c1'' [1, 0] ''A'' None
           (snd (create_collection ''c1'' ''chunks'' 2 ''flat'' vdb_init)))))))"

text \<open>The items of a collection that have an entry whose similarity to the query meets the
  threshold, each once.\<close>

definition items_meeting_threshold ::
  "VectorDatabase \<Rightarrow> string \<Rightarrow> real list \<Rightarrow> real \<Rightarrow> string list" where
  "items_meeting_threshold db cid q th =
     remdups (map (\<lambda>(eid, entry). entry_item_id entry)
       (filter (\<lambda>(eid, entry).
                  case cosine_similarity q (entry_vector entry) of
                    Inl e \<Rightarrow> False | Inr s \<Rightarrow> th \<le> s)
               (the_dict (map_of (entries db) cid))))"

text \<open>A catalog item without metadata, and services that convert no string to a float and
  iterate over a set in the order given.\<close>

definition item_car :: KnowledgeItem where
  "item_car =
     \<lparr>ki_item_id = ''k1'', ki_content = ''a red sports car'', ki_source = ''web'',
      confidence = 0.9, ki_metadata = [], created_at = Some 0\<rparr>"

definition plain_services :: services where
  "plain_services =
     \<lparr>get_embedding = (\<lambda>text. [1, 0]), str_to_float = (\<lambda>s. None), set_order = (\<lambda>ids. ids)\<rparr>"

definition query_red :: KnowledgeQuery where
  "query_red =
     \<lparr>query_id = ''q1'', query_text = ''Red'', query_type = EXACT,
      filters = Some [(''topic'', PStr ''ai'')], top_k = 5, threshold = 0\<rparr>"

text \<open>A memory manager with three short-term items: \<open>A\<close> (importance 0.9, 2 tokens),
  \<open>B\<close> (importance 0.8, 11 tokens) and \<open>C\<close> (importance 0.1, 1 token).\<close>

definition mem_item :: "string \<Rightarrow> string \<Rightarrow> MemoryType \<Rightarrow> real \<Rightarrow> MemoryItem" where
  "mem_item iid text ty imp =
     \<lparr>item_id = iid, content = text, memory_type = ty, embedding = [],
      item_metadata = [], importance = imp, access_count = 0, last_accessed = 0\<rparr>"

definition mm_three :: MemoryManager where
  "mm_three =
     snd (store_item ''u3'' (mem_item ''C'' '''' SHORT_TERM 0.1)
       (snd (store_item ''u2''
               (mem_item ''B'' ''0123456789012345678901234567890123456789'' SHORT_TERM 0.8)
         (snd (store_item ''u1'' (mem_item ''A'' ''aaaa'' SHORT_TERM 0.9) mm_init)))))"

text \<open>The short-term items that a window leaves out, as context items.\<close>

definition left_out :: "real \<Rightarrow> MemoryManager \<Rightarrow> ContextWindow \<Rightarrow> ContextItem list" where
  "left_out now mm w =
     filter (\<lambda>c. ci_item_id c \<notin> ci_item_id ` set (window_items w))
       (map (\<lambda>(iid, item). context_item_of now item) (short_term_memory mm))"

text \<open>Two stores of the id \<open>X\<close>, first as a short-term and then as a long-term item; and a
  sequence that stores \<open>X\<close> once and moves it between the tiers.\<close>

definition ops_same_id :: "mm_op list" where
  "ops_same_id =
     [Store ''u1'' (mem_item ''X'' ''a'' SHORT_TERM 0.5),
      Store ''u2'' (mem_item ''X'' ''a'' LONG_TERM 0.5)]"

definition ops_move :: "mm_op list" where
  "ops_move =
     [Store ''u1'' (mem_item ''X'' ''a'' SHORT_TERM 0.5),
      MoveToLongTerm ''X'', Retrieve 7 ''X'', MoveToShortTerm ''X'', Optimize]"

text \<open>A second catalog item, an exact query whose threshold is 2, and an exact query whose
  \<open>top_k\<close> is \<open>- 1\<close>.\<close>

definition item_bus :: KnowledgeItem where
  "item_bus =
     \<lparr>ki_item_id = ''k2'', ki_content = ''a red bus'', ki_source = ''web'',
      confidence = 0.5, ki_metadata = [], created_at = Some 0\<rparr>"

definition query_threshold_2 :: KnowledgeQuery where
  "query_threshold_2 =
     \<lparr>query_id = ''q2'', query_text = ''red'', query_type = EXACT,
      filters = None, top_k = 5, threshold = 2\<rparr>"

definition query_top_k_negative :: KnowledgeQuery where
  "query_top_k_negative =
     \<lparr>query_id = ''q3'', query_text = ''red'', query_type = EXACT,
      filters = None, top_k = - 1, threshold = 0\<rparr>"

definition query_keyword :: KnowledgeQuery where
  "query_keyword =
     \<lparr>query_id = ''q4'', query_text = ''red car'', query_type = KEYWORD,
      filters = None, top_k = 1, threshold = 0.4\<rparr>"

definition engine_none :: RetrievalEngine where
  "engine_none = \<lparr>default_collection_id = None\<rparr>"

text \<open>A catalog of the items \<open>A\<close> and \<open>B\<close> of the collection \<open>c1\<close>, an engine whose default
  collection is \<open>c1\<close>, and a hybrid query.\<close>

definition catalog_ab :: "(string, KnowledgeItem) dict" where
  "catalog_ab =
     [(''A'', item_car\<lparr>ki_item_id := ''A''\<rparr>), (''B'', item_bus\<lparr>ki_item_id := ''B''\<rparr>)]"

definition engine_c1 :: RetrievalEngine where
  "engine_c1 = \<lparr>default_collection_id = Some ''c1''\<rparr>"

definition query_hybrid :: KnowledgeQuery where
  "query_hybrid =
     \<lparr>query_id = ''q5'', query_text = ''red car'', query_type = HYBRID,
      filters = None, top_k = 5, threshold = 0\<rparr>"

text \<open>A memory item of type \<open>SEMANTIC\<close>, and the memory manager after it is stored.\<close>

definition item_semantic :: MemoryItem where
  "item_semantic = mem_item ''i1'' ''a red sports car'' SEMANTIC 0.9"

definition mm_semantic :: MemoryManager where
  "mm_semantic = snd (store_item ''u0'' item_semantic mm_init)"

section \<open>Evaluation of the example states\<close>

lemma db_dim3_eq:
  "db_dim3 =
     \<lparr>collections =
        [(''c1'', \<lparr>collection_id = ''c1'', collection_name = ''docs'', dimension = 3,
                  index_type = ''flat''\<rparr>)],
      entries = [(''c1'', [])], item_mapping = []\<rparr>"
  by (simp add: db_dim3_def create_collection_def vdb_init_def)

lemma db_chunks_eq:
  "db_chunks =
     \<lparr>collections =
        [(''c1'', \<lparr>collection_id = ''c1'', collection_name = ''chunks'', dimension = 2,
                  index_type = ''flat''\<rparr>)],
      entries =
        [(''c1'',
          [(''e1'', \<lparr>entry_id = ''e1'', entry_vector = [1, 0], entry_item_id = ''A'',
                     entry_metadata = []\<rparr>),
           (''e2'', \<lparr>entry_id = ''e2'', entry_vector = [1, 0], entry_item_id = ''A'',
                     entry_metadata = []\<rparr>),
           (''e3'', \<lparr>entry_id = ''e3'', entry_vector = [0, 1], entry_item_id = ''B'',
                     entry_metadata = []\<rparr>)])],
      item_mapping = [(''A'', [(''c1'', ''e1''), (''c1'', ''e2'')]), (''B'', [(''c1'', ''e3'')])]\<rparr>"
  by (simp add: db_chunks_def add_vector_def create_collection_def vdb_init_def)

section \<open>Vector database: insertion\<close>

text \<open>
  Claim C7. For an existing collection and a vector whose length differs from the
  collection's dimension, \<open>add_vector\<close> fails with the dimension-mismatch error, and the
  database after the call is the database before it: the stored entries and the reverse
  index from items to entries are unchanged.
\<close>

theorem add_vector_dimension_mismatch:
  assumes "map_of (collections db) cid = Some c"
    and "int (length vec) \<noteq> dimension c"
  shows "add_vector uuid cid vec iid md db
           = (Inl (DimensionMismatch (dimension c) (length vec)), db)
         \<and> entries (snd (add_vector uuid cid vec iid md db)) = entries db
         \<and> item_mapping (snd (add_vector uuid cid vec iid md db)) = item_mapping db"
  using assms by (simp add: add_vector_def)

theorem add_vector_dimension_mismatch_witness:
  "add_vector ''e1'' ''c1'' [1, 2] ''i1'' None db_dim3 = (Inl (DimensionMismatch 3 2), db_dim3)
   \<and> entries (snd (add_vector ''e1'' ''c1'' [1, 2] ''i1'' None db_dim3)) = [(''c1'', [])]
   \<and> item_mapping (snd (add_vector ''e1'' ''c1'' [1, 2] ''i1'' None db_dim3)) = []"
  using add_vector_dimension_mismatch
    [of db_dim3 "''c1''"
        "\<lparr>collection_id = ''c1'', collection_name = ''docs'', dimension = 3,
          index_type = ''flat''\<rparr>"
        "[1, 2]" "''e1''" "''i1''" None]
  by (simp add: db_dim3_eq)

section \<open>Vector database: search\<close>

lemma cosine_unit_same: "cosine_similarity [1, 0] [1, 0] = Inr 1"
  by (simp add: cosine_similarity_def dot_def linalg_norm_def)

lemma cosine_unit_orthogonal: "cosine_similarity [1, 0] [0, 1] = Inr 0"
  by (simp add: cosine_similarity_def dot_def linalg_norm_def)

lemma search_vectors_db_chunks: "search_vectors db_chunks ''c1'' [1, 0] 2 0 None = Inr [(''e1'', 1), (''e2'', 1)]"
  by (simp add: db_chunks_eq search_vectors_def cosine_unit_same cosine_unit_orthogonal sort_desc_def py_take_def)

lemma search_items_db_chunks: "search_items db_chunks ''c1'' [1, 0] 2 0 None = Inr [(''A'', 1)]"
  by (simp add: search_items_def search_vectors_db_chunks) (simp add: db_chunks_eq)

lemma items_meeting_db_chunks: "items_meeting_threshold db_chunks ''c1'' [1, 0] 0 = [''A'', ''B'']"
  by (simp add: items_meeting_threshold_def db_chunks_eq cosine_unit_same cosine_unit_orthogonal)

text \<open>
  Claim C10. There are a collection and a query for which \<open>search_items\<close> returns strictly
  fewer than \<open>top_k\<close> items although \<open>top_k\<close> distinct items have an entry whose similarity
  meets the threshold: \<open>search_vectors\<close> cuts the ranked entries to \<open>top_k\<close> before
  \<open>search_items\<close> drops the repeated items. In the example item \<open>A\<close> has two entries of
  similarity 1 and item \<open>B\<close> one of similarity 0; with \<open>top_k = 2\<close> and threshold 0 both kept
  entries belong to \<open>A\<close>, and one item is returned.
\<close>

theorem search_items_fewer_than_top_k:
  "search_vectors db_chunks ''c1'' [1, 0] 2 0 None = Inr [(''e1'', 1), (''e2'', 1)]
   \<and> search_items db_chunks ''c1'' [1, 0] 2 0 None = Inr [(''A'', 1)]
   \<and> items_meeting_threshold db_chunks ''c1'' [1, 0] 0 = [''A'', ''B'']
   \<and> (\<exists>db cid q k th res.
         search_items db cid q k th None = Inr res
         \<and> int (length res) < k
         \<and> k \<le> int (length (items_meeting_threshold db cid q th)))"
proof -
  have "search_items db_chunks ''c1'' [1, 0] 2 0 None = Inr [(''A'', 1)]
        \<and> int (length [(''A'', 1::real)]) < 2
        \<and> 2 \<le> int (length (items_meeting_threshold db_chunks ''c1'' [1, 0] 0))"
    by (simp add: search_items_db_chunks items_meeting_db_chunks)
  then have "\<exists>db cid q k th res.
         search_items db cid q k th None = Inr res
         \<and> int (length res) < k
         \<and> k \<le> int (length (items_meeting_threshold db cid q th))"
    by blast
  then show ?thesis
    by (simp add: search_vectors_db_chunks search_items_db_chunks items_meeting_db_chunks)
qed

theorem search_items_fewer_than_top_k_witness:
  "(case search_items db_chunks ''c1'' [1, 0] 2 0 None of
      Inl e \<Rightarrow> False | Inr res \<Rightarrow> length res = 1)
   \<and> length (items_meeting_threshold db_chunks ''c1'' [1, 0] 0) = 2"
  using search_items_fewer_than_top_k by simp

section \<open>Retrieval engine: filters\<close>

lemma lower_Red: "lower ''Red'' = ''red''"
  by (simp add: lower_def lower_char_def less_eq_char_def char_of_def bit_simps)

lemma lower_car: "lower ''a red sports car'' = ''a red sports car''"
  by (simp add: lower_def lower_char_def less_eq_char_def)

lemma split_car: "split ''a red sports car'' = [''a'', ''red'', ''sports'', ''car'']"
  by (simp add: split_def is_space_def less_eq_char_def)

lemma exact_search_query_red:
  "exact_search plain_services 0 query_red [(''k1'', item_car)] = Inr [(''k1'', 1)]"
  by (simp add: exact_search_def query_red_def item_car_def lower_Red lower_car py_take_def)

text \<open>
  Claim C4, where the code departs from it. The claim has \<open>_matches_filters\<close> exclude an item
  that does not carry a filtered metadata key. The last branch of \<open>_matches_filters\<close> tests
  \<open>key in item.metadata and item.metadata[key] != value\<close>, so for a key other than
  \<open>source\<close>, \<open>min_confidence\<close> and \<open>max_age\<close> that the item does not carry, the filter passes,
  while \<open>_matches_metadata_filter\<close> of the vector database, on the same metadata and the
  same filter, rejects (\<open>key not in metadata or ...\<close>).
\<close>

theorem matches_filters_missing_key_passes:
  assumes "key \<noteq> ''source''" and "key \<noteq> ''min_confidence''" and "key \<noteq> ''max_age''"
    and "map_of (ki_metadata item) key = None"
  shows "matches_filters sv now item [(key, val)] = Inr True
         \<and> \<not> matches_metadata_filter (ki_metadata item) [(key, val)]"
  using assms by simp

text \<open>At the failing input: an item without metadata passes the filter \<open>{"topic": "ai"}\<close>,
  and an exact query with that filter returns it.\<close>

theorem matches_filters_missing_key_passes_witness:
  "matches_filters plain_services 0 item_car [(''topic'', PStr ''ai'')] = Inr True
   \<and> \<not> matches_metadata_filter (ki_metadata item_car) [(''topic'', PStr ''ai'')]
   \<and> exact_search plain_services 0 query_red [(''k1'', item_car)] = Inr [(''k1'', 1)]"
proof -
  have "map_of (ki_metadata item_car) ''topic'' = None"
    by (simp add: item_car_def)
  then have "matches_filters plain_services 0 item_car [(''topic'', PStr ''ai'')] = Inr True
             \<and> \<not> matches_metadata_filter (ki_metadata item_car) [(''topic'', PStr ''ai'')]"
    using matches_filters_missing_key_passes
      [of "''topic''" item_car plain_services 0 "PStr ''ai''"]
    by simp
  with exact_search_query_red show ?thesis by blast
qed

section \<open>Memory manager: context window\<close>

lemma mm_three_eq:
  "mm_three =
     \<lparr>short_term_memory =
        [(''A'', mem_item ''A'' ''aaaa'' SHORT_TERM 0.9),
         (''B'', mem_item ''B'' ''0123456789012345678901234567890123456789'' SHORT_TERM 0.8),
         (''C'', mem_item ''C'' '''' SHORT_TERM 0.1)],
      long_term_memory = [], categories = []\<rparr>"
  by (simp add: mm_three_def store_item_def mm_init_def mem_item_def)

lemma calculate_recency_now: "calculate_recency t t = 1"
  by (simp add: calculate_recency_def)

lemma window_three:
  "create_context_window 0 ''w'' 5 ''importance'' mm_three =
     \<lparr>window_id = ''w'',
      window_items =
        [\<lparr>ci_item_id = ''A'', ci_content = ''aaaa'', ci_importance = 0.9, recency = 1,
          token_count = 2, ci_source = ''memory'', ci_metadata = []\<rparr>],
      max_tokens = 5, current_tokens = 2, strategy = ''importance''\<rparr>"
  by (simp add: create_context_window_def context_items_def mm_three_eq sort_by_strategy_def
      sort_desc_def context_item_of_def mem_item_def calculate_recency_now
      estimate_token_count_def)

lemma window_three_negative_budget:
  "create_context_window 0 ''w'' (- 1) ''importance'' mm_three =
     \<lparr>window_id = ''w'', window_items = [], max_tokens = - 1, current_tokens = 0,
      strategy = ''importance''\<rparr>"
  by (simp add: create_context_window_def context_items_def mm_three_eq sort_by_strategy_def
      sort_desc_def context_item_of_def mem_item_def calculate_recency_now
      estimate_token_count_def)

lemma left_out_three:
  "map (\<lambda>c. (ci_item_id c, token_count c))
     (left_out 0 mm_three (create_context_window 0 ''w'' 5 ''importance'' mm_three))
   = [(''B'', 11), (''C'', 1)]"
  unfolding window_three
  by (simp add: left_out_def mm_three_eq context_item_of_def mem_item_def
      estimate_token_count_def)

lemma select_items_spec:
  "select_items maxt cur xs = (sel, tot) \<Longrightarrow>
     tot = cur + sum_list (map token_count sel)
     \<and> (cur \<le> maxt \<longrightarrow> tot \<le> maxt)
     \<and> (\<exists>rest. xs = sel @ rest \<and> (rest \<noteq> [] \<longrightarrow> maxt < tot + token_count (hd rest)))"
proof (induction xs arbitrary: cur sel tot)
  case Nil
  then show ?case by simp
next
  case (Cons x xs)
  show ?case
  proof (cases "cur + token_count x \<le> maxt")
    case True
    obtain sel' tot' where r: "select_items maxt (cur + token_count x) xs = (sel', tot')"
      by (cases "select_items maxt (cur + token_count x) xs")
    with Cons.prems True have e: "sel = x # sel'" "tot = tot'" by simp_all
    from Cons.IH[OF r] True e show ?thesis by auto
  next
    case False
    with Cons.prems show ?thesis by auto
  qed
qed

text \<open>
  Claim C1 as stated fails in two ways. With a budget of 5 tokens and the strategy
  \<open>importance\<close>, the window over \<open>A\<close> (2 tokens), \<open>B\<close> (11 tokens) and \<open>C\<close> (1 token) holds
  \<open>A\<close> alone: the loop stops at \<open>B\<close>, and \<open>C\<close>, whose single token fits the 3 that remain, is
  left out of a non-empty window. With the budget \<open>- 1\<close> the window is empty and its 0
  current tokens exceed the budget.
\<close>

theorem context_window_claim_counterexample:
  "map ci_item_id (window_items (create_context_window 0 ''w'' 5 ''importance'' mm_three)) = [''A'']
   \<and> current_tokens (create_context_window 0 ''w'' 5 ''importance'' mm_three) = 2
   \<and> max_tokens (create_context_window 0 ''w'' 5 ''importance'' mm_three) = 5
   \<and> map (\<lambda>c. (ci_item_id c, token_count c))
        (left_out 0 mm_three (create_context_window 0 ''w'' 5 ''importance'' mm_three))
      = [(''B'', 11), (''C'', 1)]
   \<and> (1::int) \<le> 5 - 2
   \<and> current_tokens (create_context_window 0 ''w'' (- 1) ''importance'' mm_three) = 0
   \<and> max_tokens (create_context_window 0 ''w'' (- 1) ''importance'' mm_three) = - 1"
  by (simp add: left_out_three) (simp add: window_three window_three_negative_budget)

text \<open>
  Claim C1, amended. For a budget \<open>max_tokens \<ge> 0\<close> the window's \<open>current_tokens\<close> is the sum
  of the token counts of its items and does not exceed \<open>max_tokens\<close>; the items of the window
  are a prefix of the short-term items in the order of the strategy, and when an item is
  left out, the first one left out in that order has a token count above
  \<open>max_tokens - current_tokens\<close>. Nothing is said of the items after it.
\<close>

theorem create_context_window_budget:
  assumes "0 \<le> maxt"
  shows "current_tokens (create_context_window now uuid maxt strat mm) \<le> maxt
         \<and> max_tokens (create_context_window now uuid maxt strat mm) = maxt
         \<and> current_tokens (create_context_window now uuid maxt strat mm)
             = sum_list (map token_count
                 (window_items (create_context_window now uuid maxt strat mm)))
         \<and> (\<exists>rest. context_items now strat mm
                      = window_items (create_context_window now uuid maxt strat mm) @ rest
                  \<and> (rest \<noteq> [] \<longrightarrow>
                       maxt - current_tokens (create_context_window now uuid maxt strat mm)
                         < token_count (hd rest)))"
proof -
  obtain sel tot where r: "select_items maxt 0 (context_items now strat mm) = (sel, tot)"
    by (cases "select_items maxt 0 (context_items now strat mm)")
  then have w: "create_context_window now uuid maxt strat mm =
      \<lparr>window_id = uuid, window_items = sel, max_tokens = maxt, current_tokens = tot,
       strategy = strat\<rparr>"
    by (simp add: create_context_window_def)
  from select_items_spec[OF r] assms show ?thesis
    unfolding w by auto
qed

theorem create_context_window_budget_witness:
  "current_tokens (create_context_window 0 ''w'' 5 ''importance'' mm_three) \<le> 5
   \<and> current_tokens (create_context_window 0 ''w'' 5 ''importance'' mm_three) = 2
   \<and> map ci_item_id (context_items 0 ''importance'' mm_three) = [''A'', ''B'', ''C'']
   \<and> map token_count (context_items 0 ''importance'' mm_three) = [2, 11, 1]"
proof -
  have "current_tokens (create_context_window 0 ''w'' 5 ''importance'' mm_three) \<le> 5"
    using create_context_window_budget[of 5 0 "''w''" "''importance''" mm_three] by simp
  moreover have "map ci_item_id (context_items 0 ''importance'' mm_three) = [''A'', ''B'', ''C'']
     \<and> map token_count (context_items 0 ''importance'' mm_three) = [2, 11, 1]"
    by (simp add: context_items_def mm_three_eq sort_by_strategy_def
      sort_desc_def context_item_of_def mem_item_def estimate_token_count_def)
  ultimately show ?thesis by (simp add: window_three)
qed

section \<open>Memory manager: tiers\<close>

lemma map_of_None_iff: "map_of d k = None \<longleftrightarrow> k \<notin> fst ` set d"
  by (simp add: map_of_eq_None_iff)

lemma keys_delete: "fst ` set (AList.delete k d) = fst ` set d - {k}"
  by (induction d) auto

lemma tier_exclusive_store:
  "tier_exclusive mm \<Longrightarrow> store_fresh (Store uuid item) mm \<Longrightarrow>
   tier_exclusive (snd (store_item uuid item mm))"
  by (auto simp: tier_exclusive_def store_item_def stored_id_def Let_def dom_update
      map_of_None_iff split: if_splits)

lemma keys_retrieve:
  "fst ` set (short_term_memory (snd (retrieve_item now iid mm))) = fst ` set (short_term_memory mm)
   \<and> fst ` set (long_term_memory (snd (retrieve_item now iid mm))) = fst ` set (long_term_memory mm)"
  by (auto simp: retrieve_item_def Let_def dom_update split: option.splits dest: map_of_SomeD
      intro: rev_image_eqI)

lemma tier_exclusive_retrieve:
  "tier_exclusive mm \<Longrightarrow> tier_exclusive (snd (retrieve_item now iid mm))"
  by (simp add: tier_exclusive_def keys_retrieve)

lemma keys_update_item:
  "fst ` set (short_term_memory (snd (update_item item mm))) = fst ` set (short_term_memory mm)
   \<and> fst ` set (long_term_memory (snd (update_item item mm))) = fst ` set (long_term_memory mm)"
  by (auto simp: update_item_def dom_update map_of_None_iff)

lemma tier_exclusive_update:
  "tier_exclusive mm \<Longrightarrow> tier_exclusive (snd (update_item item mm))"
  by (simp add: tier_exclusive_def keys_update_item)

lemma tier_exclusive_delete:
  "tier_exclusive mm \<Longrightarrow> tier_exclusive (snd (delete_item iid mm))"
  by (auto simp: tier_exclusive_def delete_item_def keys_delete)

lemma tier_exclusive_move_to_long_term:
  "tier_exclusive mm \<Longrightarrow> tier_exclusive (snd (move_to_long_term iid mm))"
  by (auto simp: tier_exclusive_def move_to_long_term_def keys_delete dom_update
      split: option.splits)

lemma tier_exclusive_move_to_short_term:
  "tier_exclusive mm \<Longrightarrow> tier_exclusive (snd (move_to_short_term iid mm))"
  by (auto simp: tier_exclusive_def move_to_short_term_def keys_delete dom_update
      split: option.splits)

lemma tier_exclusive_move_all:
  "tier_exclusive mm \<Longrightarrow> tier_exclusive (move_all ids mm)"
  by (induction ids arbitrary: mm) (auto simp: tier_exclusive_move_to_long_term)

lemma tier_exclusive_optimize:
  "tier_exclusive mm \<Longrightarrow> tier_exclusive (snd (optimize_memory mm))"
  by (simp add: optimize_memory_def tier_exclusive_move_all)

lemma tier_exclusive_apply_op:
  "tier_exclusive mm \<Longrightarrow> store_fresh op mm \<Longrightarrow> tier_exclusive (apply_op op mm)"
  by (cases op)
    (simp_all add: tier_exclusive_store tier_exclusive_retrieve tier_exclusive_update
      tier_exclusive_delete tier_exclusive_move_to_long_term tier_exclusive_move_to_short_term
      tier_exclusive_optimize del: store_fresh.simps)

lemma tier_exclusive_run_ops:
  "tier_exclusive mm \<Longrightarrow> stores_fresh ops mm \<Longrightarrow> tier_exclusive (run_ops ops mm)"
  by (induction ops arbitrary: mm) (auto simp: tier_exclusive_apply_op)

lemma stores_fresh_take: "stores_fresh ops mm \<Longrightarrow> stores_fresh (take n ops) mm"
proof (induction ops arbitrary: mm n)
  case Nil
  then show ?case by simp
next
  case (Cons op ops)
  then show ?case by (cases n) auto
qed

lemma tier_exclusive_init: "tier_exclusive mm_init"
  by (simp add: tier_exclusive_def mm_init_def)

text \<open>
  Claim C3 as stated fails: \<open>store_item\<close> files an item under its id in the tier its
  \<open>memory_type\<close> names and never looks at the other tier. Storing the id \<open>X\<close> as a short-term
  item and then as a long-term item leaves \<open>X\<close> a key of both tier maps.
\<close>

theorem tier_exclusive_claim_counterexample:
  "map fst (short_term_memory (run_ops ops_same_id mm_init)) = [''X'']
   \<and> map fst (long_term_memory (run_ops ops_same_id mm_init)) = [''X'']
   \<and> \<not> tier_exclusive (run_ops ops_same_id mm_init)"
  by (simp add: ops_same_id_def mm_init_def store_item_def mem_item_def tier_exclusive_def)

text \<open>
  Claim C3, amended. Along every sequence of \<open>store_item\<close>, \<open>retrieve_item\<close>, \<open>update_item\<close>,
  \<open>delete_item\<close>, \<open>move_to_long_term\<close>, \<open>move_to_short_term\<close> and \<open>optimize_memory\<close> from the
  empty manager in which every \<open>store_item\<close> files its item under an id that is not, at that
  moment, a key of the other tier, no id is a key of both tier maps after any number of
  steps. A move of an id that is not a key of the source tier returns \<open>False\<close> and leaves the
  manager as it was.
\<close>

theorem tier_exclusive_reachable:
  "(stores_fresh ops mm_init \<longrightarrow> tier_exclusive (run_ops (take n ops) mm_init))
   \<and> (map_of (short_term_memory mm) iid = None \<longrightarrow> move_to_long_term iid mm = (False, mm))
   \<and> (map_of (long_term_memory mm) iid = None \<longrightarrow> move_to_short_term iid mm = (False, mm))"
  by (simp add: tier_exclusive_run_ops stores_fresh_take tier_exclusive_init
      move_to_long_term_def move_to_short_term_def)

theorem tier_exclusive_reachable_witness:
  "stores_fresh ops_move mm_init
   \<and> tier_exclusive (run_ops (take 4 ops_move) mm_init)
   \<and> map fst (short_term_memory (run_ops (take 4 ops_move) mm_init)) = [''X'']
   \<and> map fst (long_term_memory (run_ops (take 4 ops_move) mm_init)) = []
   \<and> move_to_long_term ''Z'' mm_init = (False, mm_init)
   \<and> move_to_short_term ''Z'' mm_init = (False, mm_init)"
proof -
  have f: "stores_fresh ops_move mm_init"
    by (simp add: ops_move_def mm_init_def store_item_def mem_item_def stored_id_def)
  have z: "map_of (short_term_memory mm_init) ''Z'' = None"
    "map_of (long_term_memory mm_init) ''Z'' = None"
    by (simp_all add: mm_init_def)
  have k: "map fst (short_term_memory (run_ops (take 4 ops_move) mm_init)) = [''X'']
   \<and> map fst (long_term_memory (run_ops (take 4 ops_move) mm_init)) = []"
    by (simp add: ops_move_def mm_init_def store_item_def mem_item_def move_to_long_term_def
        move_to_short_term_def retrieve_item_def Let_def)
  from f z k tier_exclusive_reachable[of ops_move 4 mm_init "''Z''"] show ?thesis by simp
qed

section \<open>Retrieval engine: queries\<close>

lemma py_take_set: "set (py_take k xs) \<subseteq> set xs"
  by (auto simp: py_take_def dest: in_set_takeD)

lemma py_take_length: "0 \<le> k \<Longrightarrow> int (length (py_take k xs)) \<le> k"
  by (simp add: py_take_def)

lemma sorted_wrt_take: "sorted_wrt P xs \<Longrightarrow> sorted_wrt P (take n xs)"
proof (induction xs arbitrary: n)
  case Nil
  then show ?case by simp
next
  case (Cons x xs)
  then show ?case by (cases n) (auto dest: in_set_takeD)
qed

lemma py_take_sorted: "sorted_wrt P (map f xs) \<Longrightarrow> sorted_wrt P (map f (py_take k xs))"
  by (simp add: py_take_def take_map[symmetric] sorted_wrt_take)

lemma sort_desc_set: "set (sort_desc f xs) = set xs"
  by (simp add: sort_desc_def)

lemma sort_desc_sorted: "non_increasing (map f (sort_desc f xs))"
proof -
  have "sorted (map (\<lambda>x. - f x) (sort_desc f xs))"
    by (simp add: sort_desc_def)
  then have "sorted_wrt (\<lambda>x y. - f x \<le> - f y) (sort_desc f xs)"
    by (simp add: sorted_wrt_map)
  then show ?thesis by (simp add: non_increasing_def sorted_wrt_map)
qed


lemma py_take_non_increasing:
  "non_increasing (map f xs) \<Longrightarrow> non_increasing (map f (py_take k xs))"
  unfolding non_increasing_def by (rule py_take_sorted)

lemma similarities_of_threshold:
  "similarities_of q th fm es = Inr sims \<Longrightarrow> \<forall>p\<in>set sims. th \<le> snd p"
proof (induction es arbitrary: sims)
  case Nil
  then show ?case by simp
next
  case (Cons a es)
  obtain eid entry where a: "a = (eid, entry)" by (cases a)
  from Cons.prems Cons.IH show ?case
    unfolding a by (auto split: if_splits sum.splits)
qed

lemma search_vectors_contract:
  assumes "search_vectors db cid q k th fm = Inr rs"
  shows "(\<forall>p\<in>set rs. th \<le> snd p) \<and> non_increasing (map snd rs)
         \<and> (0 \<le> k \<longrightarrow> int (length rs) \<le> k)"
proof -
  from assms obtain sims where s: "similarities_of q th fm
      (the_dict (map_of (entries db) cid)) = Inr sims"
    and rs: "rs = py_take k (sort_desc snd sims)"
    by (auto simp: search_vectors_def split: option.splits if_splits sum.splits)
  from similarities_of_threshold[OF s] have "\<forall>p\<in>set rs. th \<le> snd p"
    unfolding rs using py_take_set[of k "sort_desc snd sims"] by (auto simp: sort_desc_set)
  moreover have "non_increasing (map snd rs)"
    unfolding rs by (rule py_take_non_increasing) (rule sort_desc_sorted)
  moreover have "0 \<le> k \<longrightarrow> int (length rs) \<le> k"
    unfolding rs by (simp add: py_take_length)
  ultimately show ?thesis by blast
qed

lemma item_results_of_contract:
  "item_results_of es seen xs = Inr res \<Longrightarrow>
     length res \<le> length xs \<and> snd ` set res \<subseteq> snd ` set xs
     \<and> (sorted_wrt P (map snd xs) \<longrightarrow> sorted_wrt P (map snd res))"
proof (induction xs arbitrary: seen res)
  case Nil
  then show ?case by simp
next
  case (Cons a xs)
  obtain eid score where a: "a = (eid, score)" by (cases a)
  show ?case
  proof (cases "map_of es eid")
    case None
    with Cons.prems show ?thesis unfolding a by simp
  next
    case (Some entry)
    show ?thesis
    proof (cases "entry_item_id entry \<in> seen")
      case True
      with Cons.prems Some have "item_results_of es seen xs = Inr res"
        unfolding a by simp
      from Cons.IH[OF this] show ?thesis unfolding a by auto
    next
      case False
      with Cons.prems Some obtain res' where
        r: "item_results_of es (insert (entry_item_id entry) seen) xs = Inr res'"
        and e: "res = (entry_item_id entry, score) # res'"
        unfolding a by (auto split: sum.splits)
      from Cons.IH[OF r] show ?thesis unfolding a e by (auto 0 3)
    qed
  qed
qed

lemma search_items_contract:
  assumes "search_items db cid q k th fm = Inr rs"
  shows "(\<forall>p\<in>set rs. th \<le> snd p) \<and> non_increasing (map snd rs)
         \<and> (0 \<le> k \<longrightarrow> int (length rs) \<le> k)"
proof -
  from assms obtain vs es where v: "search_vectors db cid q k th fm = Inr vs"
    and r: "item_results_of es {} vs = Inr rs"
    by (auto simp: search_items_def split: sum.splits option.splits)
  note c = search_vectors_contract[OF v]
  note i = item_results_of_contract[OF r, of "\<lambda>a b. b \<le> a"]
  from c i have "\<forall>p\<in>set rs. th \<le> snd p" by force
  moreover from c i have "non_increasing (map snd rs)" by (simp add: non_increasing_def)
  moreover from c i have "0 \<le> k \<longrightarrow> int (length rs) \<le> k" by auto
  ultimately show ?thesis by blast
qed


lemma non_increasing_filter:
  "non_increasing (map snd xs) \<Longrightarrow> non_increasing (map snd (filter P xs))"
  by (simp add: non_increasing_def sorted_wrt_map sorted_wrt_filter)

lemma semantic_search_contract:
  assumes "semantic_search sv eng db query items_dict = Inr rs"
  shows "(\<forall>p\<in>set rs. threshold query \<le> snd p) \<and> non_increasing (map snd rs)
         \<and> (0 \<le> top_k query \<longrightarrow> int (length rs) \<le> top_k query)"
proof (cases "rs = []")
  case True
  then show ?thesis by (simp add: non_increasing_def)
next
  case False
  with assms obtain cid results where
    s: "search_items db cid (get_embedding sv (query_text query)) (top_k query)
          (threshold query) (filters query) = Inr results"
    and rs: "rs = filter (\<lambda>(iid, score). map_of items_dict iid \<noteq> None) results"
    by (auto simp: semantic_search_def split: option.splits if_splits sum.splits)
  note c = search_items_contract[OF s]
  have "length rs \<le> length results" unfolding rs by simp
  with c have "0 \<le> top_k query \<longrightarrow> int (length rs) \<le> top_k query" by linarith
  moreover from c have "\<forall>p\<in>set rs. threshold query \<le> snd p" unfolding rs by auto
  moreover from c have "non_increasing (map snd rs)"
    unfolding rs by (simp add: non_increasing_filter)
  ultimately show ?thesis by blast
qed

lemma keyword_scores_threshold:
  "keyword_scores sv now query d = Inr found \<Longrightarrow> \<forall>p\<in>set found. threshold query \<le> snd p"
proof (induction d arbitrary: found)
  case Nil
  then show ?case by simp
next
  case (Cons a d)
  obtain iid item where a: "a = (iid, item)" by (cases a)
  from Cons.prems Cons.IH show ?case
    unfolding a by (auto simp: Let_def split: if_splits sum.splits bool.splits)
qed

lemma ranked_contract:
  assumes "\<forall>p\<in>set found. th \<le> snd p" and "rs = py_take k (sort_desc snd found)"
  shows "(\<forall>p\<in>set rs. th \<le> snd p) \<and> non_increasing (map snd rs)
         \<and> (0 \<le> k \<longrightarrow> int (length rs) \<le> k)"
proof -
  from assms have "\<forall>p\<in>set rs. th \<le> snd p"
    using py_take_set[of k "sort_desc snd found"] by (auto simp: sort_desc_set)
  moreover have "non_increasing (map snd rs)"
    unfolding assms(2) by (rule py_take_non_increasing) (rule sort_desc_sorted)
  moreover have "0 \<le> k \<longrightarrow> int (length rs) \<le> k"
    unfolding assms(2) by (simp add: py_take_length)
  ultimately show ?thesis by blast
qed

lemma keyword_search_contract:
  assumes "keyword_search sv now query items_dict = Inr rs"
  shows "(\<forall>p\<in>set rs. threshold query \<le> snd p) \<and> non_increasing (map snd rs)
         \<and> (0 \<le> top_k query \<longrightarrow> int (length rs) \<le> top_k query)"
proof -
  from assms obtain found where f: "keyword_scores sv now query items_dict = Inr found"
    and rs: "rs = py_take (top_k query) (sort_desc snd found)"
    by (auto simp: keyword_search_def split: sum.splits)
  from ranked_contract[OF keyword_scores_threshold[OF f] rs] show ?thesis .
qed

lemma hybrid_search_unfold:
  assumes "hybrid_search sv now eng db query items_dict = Inr rs"
  obtains sr kr where "semantic_search sv eng db query items_dict = Inr sr"
    and "keyword_search sv now query items_dict = Inr kr"
    and "rs = py_take (top_k query) (sort_desc snd
           (filter (\<lambda>(iid, score). threshold query \<le> score)
              (map (\<lambda>iid. (iid, combined_score (dict_of_pairs sr) (dict_of_pairs kr) iid))
                 (set_order sv (remdups (map fst (dict_of_pairs sr)
                                          @ map fst (dict_of_pairs kr)))))))"
  using assms by (auto simp: hybrid_search_def Let_def split: sum.splits)

lemma hybrid_search_contract:
  assumes "hybrid_search sv now eng db query items_dict = Inr rs"
  shows "(\<forall>p\<in>set rs. threshold query \<le> snd p) \<and> non_increasing (map snd rs)
         \<and> (0 \<le> top_k query \<longrightarrow> int (length rs) \<le> top_k query)"
proof -
  from assms obtain found where f: "\<forall>p\<in>set found. threshold query \<le> snd p"
    and rs: "rs = py_take (top_k query) (sort_desc snd found)"
  proof (rule hybrid_search_unfold)
    fix sr kr
    assume r: "rs = py_take (top_k query) (sort_desc snd
           (filter (\<lambda>(iid, score). threshold query \<le> score)
              (map (\<lambda>iid. (iid, combined_score (dict_of_pairs sr) (dict_of_pairs kr) iid))
                 (set_order sv (remdups (map fst (dict_of_pairs sr)
                                          @ map fst (dict_of_pairs kr)))))))"
    assume t: "\<And>found. \<forall>p\<in>set found. threshold query \<le> snd p \<Longrightarrow>
                 rs = py_take (top_k query) (sort_desc snd found) \<Longrightarrow> thesis"
    show thesis by (rule t[OF _ r]) auto
  qed
  from ranked_contract[OF f rs] show ?thesis .
qed

lemma exact_matches_score:
  "exact_matches sv now query d = Inr found \<Longrightarrow> \<forall>p\<in>set found. snd p = 1"
proof (induction d arbitrary: found)
  case Nil
  then show ?case by simp
next
  case (Cons a d)
  obtain iid item where a: "a = (iid, item)" by (cases a)
  from Cons.prems Cons.IH show ?case
    unfolding a by (auto split: if_splits sum.splits bool.splits)
qed

lemma constant_non_increasing: "\<forall>x\<in>set xs. x = (c::real) \<Longrightarrow> non_increasing xs"
  by (induction xs) (auto simp: non_increasing_def)

lemma exact_search_contract:
  assumes "exact_search sv now query items_dict = Inr rs"
  shows "(\<forall>p\<in>set rs. snd p = 1) \<and> non_increasing (map snd rs)
         \<and> (0 \<le> top_k query \<longrightarrow> int (length rs) \<le> top_k query)"
proof -
  from assms obtain found where f: "exact_matches sv now query items_dict = Inr found"
    and rs: "rs = py_take (top_k query) (sort_key fst found)"
    by (auto simp: exact_search_def split: sum.splits)
  from exact_matches_score[OF f] have one: "\<forall>p\<in>set rs. snd p = 1"
    unfolding rs using py_take_set[of "top_k query" "sort_key fst found"] by auto
  then have "non_increasing (map snd rs)"
    by (intro constant_non_increasing[of _ 1]) auto
  moreover have "0 \<le> top_k query \<longrightarrow> int (length rs) \<le> top_k query"
    unfolding rs by (simp add: py_take_length)
  ultimately show ?thesis using one by blast
qed


lemma lookup_items_length:
  "lookup_items items_dict rs = Inr found \<Longrightarrow> length found = length rs"
proof (induction rs arbitrary: found)
  case Nil
  then show ?case by simp
next
  case (Cons a rs)
  obtain iid score where a: "a = (iid, score)" by (cases a)
  from Cons.prems Cons.IH show ?case
    unfolding a by (auto split: option.splits sum.splits)
qed

lemma set_update_subset: "set (AList.update k v al) \<subseteq> insert (k, v) (set al)"
  by (induction al) auto

lemma set_fold_update_subset:
  "set (fold (\<lambda>(k, v) d. AList.update k v d) ps d0) \<subseteq> set d0 \<union> set ps"
proof (induction ps arbitrary: d0)
  case Nil
  then show ?case by simp
next
  case (Cons a ps)
  obtain k v where a: "a = (k, v)" by (cases a)
  from Cons.IH[of "AList.update k v d0"] set_update_subset[of k v d0]
  show ?case unfolding a by auto
qed

lemma set_dict_of_pairs: "set (dict_of_pairs ps) \<subseteq> set ps"
  using set_fold_update_subset[of ps "[]"] by (simp add: dict_of_pairs_def)

lemma search_results_contract:
  assumes "search_results sv now eng db query items_dict = Inr rs"
  shows "non_increasing (map snd rs)
     \<and> (0 \<le> top_k query \<longrightarrow> int (length rs) \<le> top_k query)
     \<and> (query_type query \<noteq> EXACT \<longrightarrow> (\<forall>p\<in>set rs. threshold query \<le> snd p))
     \<and> (query_type query = EXACT \<longrightarrow> (\<forall>p\<in>set rs. snd p = 1))"
proof (cases "query_type query")
  case QSEMANTIC
  with assms semantic_search_contract[of sv eng db query items_dict rs]
  show ?thesis by (simp add: search_results_def)
next
  case KEYWORD
  with assms keyword_search_contract[of sv now query items_dict rs]
  show ?thesis by (simp add: search_results_def)
next
  case HYBRID
  with assms hybrid_search_contract[of sv now eng db query items_dict rs]
  show ?thesis by (simp add: search_results_def)
next
  case EXACT
  with assms exact_search_contract[of sv now query items_dict rs]
  show ?thesis by (simp add: search_results_def)
qed

lemma lower_red: "lower ''red'' = ''red''"
  by (simp add: lower_def lower_char_def less_eq_char_def)

lemma lower_bus: "lower ''a red bus'' = ''a red bus''"
  by (simp add: lower_def lower_char_def less_eq_char_def)

lemma lower_red_car: "lower ''red car'' = ''red car''"
  by (simp add: lower_def lower_char_def less_eq_char_def)

lemma split_bus: "split ''a red bus'' = [''a'', ''red'', ''bus'']"
  by (simp add: split_def is_space_def less_eq_char_def)

lemma split_red_car: "split ''red car'' = [''red'', ''car'']"
  by (simp add: split_def is_space_def less_eq_char_def)

lemma process_query_threshold_2:
  "process_query plain_services 0 engine_none vdb_init query_threshold_2 [(''k1'', item_car)]
     = Inr \<lparr>response_query_id = ''q2'', response_items = [item_car],
            scores = [(''k1'', 1)], response_query_type = EXACT, result_count = 1\<rparr>"
  by (simp add: process_query_def search_results_def exact_search_def query_threshold_2_def
      py_take_def dict_of_pairs_def)
    (simp add: item_car_def lower_red lower_car)

lemma process_query_top_k_negative:
  "process_query plain_services 0 engine_none vdb_init query_top_k_negative
       [(''k1'', item_car), (''k2'', item_bus)]
     = Inr \<lparr>response_query_id = ''q3'', response_items = [item_car],
            scores = [(''k1'', 1)], response_query_type = EXACT, result_count = 1\<rparr>"
  by (simp add: process_query_def search_results_def exact_search_def query_top_k_negative_def
      py_take_def dict_of_pairs_def)
    (simp add: item_car_def item_bus_def lower_red lower_car lower_bus)


lemma score_car: "keyword_score {''red'', ''car''} {''a'', ''red'', ''sports'', ''car''} = 1"
proof -
  have "{''red'', ''car''} \<inter> {''a'', ''red'', ''sports'', ''car''} = {''red'', ''car''}"
    by auto
  then show ?thesis by (simp add: keyword_score_def)
qed

lemma score_bus: "keyword_score {''red'', ''car''} {''a'', ''red'', ''bus''} = 1 / 2"
proof -
  have "{''red'', ''car''} \<inter> {''a'', ''red'', ''bus''} = {''red''}"
    by auto
  then show ?thesis by (simp add: keyword_score_def)
qed

lemma keyword_scores_example:
  "keyword_scores plain_services 0 query_keyword [(''k2'', item_bus), (''k1'', item_car)]
     = Inr [(''k2'', 1 / 2), (''k1'', 1)]"
  by (simp add: query_keyword_def item_car_def item_bus_def lower_red_car lower_car lower_bus
      split_car split_bus split_red_car score_car score_bus Let_def)

lemma keyword_search_example:
  "keyword_search plain_services 0 query_keyword [(''k2'', item_bus), (''k1'', item_car)]
     = Inr [(''k1'', 1)]"
  unfolding keyword_search_def keyword_scores_example
  by (simp add: sort_desc_def query_keyword_def py_take_def)

lemma process_query_keyword:
  "process_query plain_services 0 engine_none vdb_init query_keyword
       [(''k2'', item_bus), (''k1'', item_car)]
     = Inr \<lparr>response_query_id = ''q4'', response_items = [item_car],
            scores = [(''k1'', 1)], response_query_type = KEYWORD, result_count = 1\<rparr>"
proof -
  have t: "query_type query_keyword = KEYWORD" "query_id query_keyword = ''q4''"
    by (simp_all add: query_keyword_def)
  show ?thesis
    unfolding process_query_def search_results_def t keyword_search_example
    by (simp add: dict_of_pairs_def)
qed

text \<open>
  Claim C2 as stated fails in two ways. \<open>_exact_search\<close> never reads the threshold: an exact
  query with threshold 2 returns its match with the score 1. And the results are cut with
  \<open>[:top_k]\<close>, which for a negative \<open>top_k\<close> drops items from the end instead of returning
  none: with \<open>top_k = - 1\<close> and two matches one result comes back, more than \<open>top_k\<close>.
\<close>

theorem process_query_claim_counterexample:
  "process_query plain_services 0 engine_none vdb_init query_threshold_2 [(''k1'', item_car)]
     = Inr \<lparr>response_query_id = ''q2'', response_items = [item_car],
            scores = [(''k1'', 1)], response_query_type = EXACT, result_count = 1\<rparr>
   \<and> threshold query_threshold_2 = 2
   \<and> process_query plain_services 0 engine_none vdb_init query_top_k_negative
         [(''k1'', item_car), (''k2'', item_bus)]
     = Inr \<lparr>response_query_id = ''q3'', response_items = [item_car],
            scores = [(''k1'', 1)], response_query_type = EXACT, result_count = 1\<rparr>
   \<and> top_k query_top_k_negative = - 1"
  by (simp add: process_query_threshold_2 process_query_top_k_negative)
    (simp add: query_threshold_2_def query_top_k_negative_def)

text \<open>
  Claim C2, amended. For every query that \<open>process_query\<close> answers, the response holds one
  item per result, its score map holds only pairs of the result list, and the scores are
  non-increasing along the result list; when \<open>top_k \<ge> 0\<close> there are at most \<open>top_k\<close> results;
  for a semantic, keyword or hybrid query every score is at least the threshold, and for an
  exact query every score is 1, whatever the threshold.
\<close>

theorem process_query_contract:
  assumes "process_query sv now eng db query items_dict = Inr resp"
  shows "\<exists>rs. search_results sv now eng db query items_dict = Inr rs
     \<and> length (response_items resp) = length rs
     \<and> result_count resp = length rs
     \<and> set (scores resp) \<subseteq> set rs
     \<and> non_increasing (map snd rs)
     \<and> (0 \<le> top_k query \<longrightarrow> int (length rs) \<le> top_k query)
     \<and> (query_type query \<noteq> EXACT \<longrightarrow> (\<forall>p\<in>set rs. threshold query \<le> snd p))
     \<and> (query_type query = EXACT \<longrightarrow> (\<forall>p\<in>set rs. snd p = 1))"
proof -
  from assms obtain rs found where
    r: "search_results sv now eng db query items_dict = Inr rs"
    and l: "lookup_items items_dict rs = Inr found"
    and resp: "resp = \<lparr>response_query_id = query_id query, response_items = found,
                    scores = dict_of_pairs rs,
                    response_query_type = query_type query,
                    result_count = length rs\<rparr>"
    by (auto simp: process_query_def split: sum.splits)
  from lookup_items_length[OF l] set_dict_of_pairs[of rs] search_results_contract[OF r] r
  show ?thesis unfolding resp by simp
qed

theorem process_query_contract_witness:
  "process_query plain_services 0 engine_none vdb_init query_keyword
       [(''k2'', item_bus), (''k1'', item_car)]
     = Inr \<lparr>response_query_id = ''q4'', response_items = [item_car],
            scores = [(''k1'', 1)], response_query_type = KEYWORD, result_count = 1\<rparr>
   \<and> (\<exists>rs. search_results plain_services 0 engine_none vdb_init query_keyword
               [(''k2'', item_bus), (''k1'', item_car)] = Inr rs
          \<and> length rs = 1 \<and> non_increasing (map snd rs) \<and> int (length rs) \<le> 1)"
proof -
  have k: "top_k query_keyword = 1" by (simp add: query_keyword_def)
  from process_query_contract[OF process_query_keyword] k process_query_keyword
  show ?thesis by auto
qed

section \<open>Retrieval engine: hybrid scores\<close>

lemma map_of_fold_update:
  "map_of (fold (\<lambda>(k, v) d. AList.update k v d) ps d0) i
     = (case map_of (rev ps) i of None \<Rightarrow> map_of d0 i | Some v \<Rightarrow> Some v)"
proof (induction ps arbitrary: d0)
  case Nil
  then show ?case by simp
next
  case (Cons a ps)
  obtain k v where a: "a = (k, v)" by (cases a)
  show ?case unfolding a
    by (simp add: Cons.IH update_conv' map_add_def split: option.splits)
qed

lemma map_of_dict_of_pairs: "map_of (dict_of_pairs ps) i = map_of (rev ps) i"
  by (simp add: dict_of_pairs_def map_of_fold_update split: option.splits)

lemma dict_get_member:
  assumes "distinct (map fst ps)" and "(i, s) \<in> set ps"
  shows "dict_get (dict_of_pairs ps) i 0 = s"
proof -
  from assms have "map_of (rev ps) i = Some s"
    by (intro map_of_is_SomeI) (simp_all add: rev_map[symmetric])
  then show ?thesis by (simp add: dict_get_def map_of_dict_of_pairs)
qed

lemma dict_get_absent:
  assumes "i \<notin> fst ` set ps"
  shows "dict_get (dict_of_pairs ps) i 0 = 0"
proof -
  from assms have "map_of (rev ps) i = None"
    by (simp add: map_of_eq_None_iff)
  then show ?thesis by (simp add: dict_get_def map_of_dict_of_pairs)
qed

lemma item_results_of_distinct:
  "item_results_of es seen xs = Inr res \<Longrightarrow>
     distinct (map fst res) \<and> fst ` set res \<inter> seen = {}"
proof (induction xs arbitrary: seen res)
  case Nil
  then show ?case by simp
next
  case (Cons a xs)
  obtain eid score where a: "a = (eid, score)" by (cases a)
  show ?case
  proof (cases "map_of es eid")
    case None
    with Cons.prems show ?thesis unfolding a by simp
  next
    case (Some entry)
    show ?thesis
    proof (cases "entry_item_id entry \<in> seen")
      case True
      with Cons.prems Some have "item_results_of es seen xs = Inr res"
        unfolding a by simp
      from Cons.IH[OF this] show ?thesis .
    next
      case False
      with Cons.prems Some obtain res' where
        r: "item_results_of es (insert (entry_item_id entry) seen) xs = Inr res'"
        and e: "res = (entry_item_id entry, score) # res'"
        unfolding a by (auto split: sum.splits)
      from Cons.IH[OF r] False show ?thesis unfolding e by auto
    qed
  qed
qed

lemma distinct_map_filter_fst: "distinct (map fst xs) \<Longrightarrow> distinct (map fst (filter P xs))"
  by (simp add: distinct_map_filter)

lemma semantic_search_distinct:
  assumes "semantic_search sv eng db query items_dict = Inr rs"
  shows "distinct (map fst rs)"
proof (cases "rs = []")
  case True
  then show ?thesis by simp
next
  case False
  with assms obtain cid results where
    s: "search_items db cid (get_embedding sv (query_text query)) (top_k query)
          (threshold query) (filters query) = Inr results"
    and rs: "rs = filter (\<lambda>(iid, score). map_of items_dict iid \<noteq> None) results"
    by (auto simp: semantic_search_def split: option.splits if_splits sum.splits)
  from s obtain vs es where "item_results_of es {} vs = Inr results"
    by (auto simp: search_items_def split: sum.splits option.splits)
  from item_results_of_distinct[OF this] show ?thesis
    unfolding rs by (simp add: distinct_map_filter_fst)
qed

lemma keyword_scores_keys:
  "keyword_scores sv now query d = Inr found \<Longrightarrow> distinct (map fst d) \<Longrightarrow>
     distinct (map fst found) \<and> fst ` set found \<subseteq> fst ` set d"
proof (induction d arbitrary: found)
  case Nil
  then show ?case by simp
next
  case (Cons a d)
  obtain iid item where a: "a = (iid, item)" by (cases a)
  from Cons.prems(2) have dd: "distinct (map fst d)" and ni: "iid \<notin> fst ` set d"
    unfolding a by simp_all
  show ?case
  proof (cases "if truthy (filters query)
            then matches_filters sv now item (the_dict (filters query)) else Inr True")
    case (Inl e)
    with Cons.prems(1) show ?thesis unfolding a by simp
  next
    case (Inr ok)
    show ?thesis
    proof (cases ok)
      case False
      with Inr Cons.prems(1) have "keyword_scores sv now query d = Inr found"
        unfolding a by simp
      from Cons.IH[OF this dd] show ?thesis unfolding a by auto
    next
      case True
      with Inr Cons.prems(1) obtain rest where r: "keyword_scores sv now query d = Inr rest"
        and f: "found = rest \<or> (\<exists>s. found = (iid, s) # rest)"
        unfolding a by (auto simp: Let_def split: sum.splits if_splits)
      from Cons.IH[OF r dd] have ih: "distinct (map fst rest)" "fst ` set rest \<subseteq> fst ` set d"
        by simp_all
      from f show ?thesis
      proof
        assume "found = rest"
        with ih show ?thesis unfolding a by auto
      next
        assume "\<exists>s. found = (iid, s) # rest"
        then obtain s where "found = (iid, s) # rest" ..
        with ih ni show ?thesis unfolding a by auto
      qed
    qed
  qed
qed

lemma distinct_map_insort_key:
  "distinct (map g (insort_key f x xs)) \<longleftrightarrow> g x \<notin> g ` set xs \<and> distinct (map g xs)"
  by (induction xs) (auto simp: set_insort_key)

lemma distinct_map_sort_key: "distinct (map g (sort_key f xs)) \<longleftrightarrow> distinct (map g xs)"
  by (induction xs) (auto simp: distinct_map_insort_key)

lemma distinct_map_py_take: "distinct (map g xs) \<Longrightarrow> distinct (map g (py_take k xs))"
  by (simp add: py_take_def take_map[symmetric])

lemma keyword_search_distinct:
  assumes "keyword_search sv now query items_dict = Inr rs"
    and "distinct (map fst items_dict)"
  shows "distinct (map fst rs)"
proof -
  from assms(1) obtain found where f: "keyword_scores sv now query items_dict = Inr found"
    and rs: "rs = py_take (top_k query) (sort_desc snd found)"
    by (auto simp: keyword_search_def split: sum.splits)
  from keyword_scores_keys[OF f assms(2)] show ?thesis
    unfolding rs sort_desc_def by (simp add: distinct_map_py_take distinct_map_sort_key)
qed


lemma hybrid_search_score:
  assumes "hybrid_search sv now eng db query items_dict = Inr rs"
    and "semantic_search sv eng db query items_dict = Inr sr"
    and "keyword_search sv now query items_dict = Inr kr"
    and "(i, c) \<in> set rs"
  shows "c = combined_score (dict_of_pairs sr) (dict_of_pairs kr) i"
proof -
  define ids where
    "ids = set_order sv (remdups (map fst (dict_of_pairs sr) @ map fst (dict_of_pairs kr)))"
  define cand where
    "cand = map (\<lambda>iid. (iid, combined_score (dict_of_pairs sr) (dict_of_pairs kr) iid)) ids"
  have rs: "rs = py_take (top_k query) (sort_desc snd
              (filter (\<lambda>(iid, score). threshold query \<le> score) cand))"
    using assms(1) unfolding hybrid_search_def assms(2) assms(3) cand_def ids_def
    by (simp add: Let_def)
  have "set rs \<subseteq> set (sort_desc snd (filter (\<lambda>(iid, score). threshold query \<le> score) cand))"
    unfolding rs by (rule py_take_set)
  then have "set rs \<subseteq> set cand"
    by (simp add: sort_desc_set subset_iff)
  with assms(4) have "(i, c) \<in> set cand" by (rule_tac subsetD)
  then show ?thesis unfolding cand_def by (simp add: image_iff)
qed

lemma search_items_db_chunks_5:
  "search_items db_chunks ''c1'' [1, 0] 5 0 None = Inr [(''A'', 1), (''B'', 0)]"
proof -
  have "search_vectors db_chunks ''c1'' [1, 0] 5 0 None
          = Inr [(''e1'', 1), (''e2'', 1), (''e3'', 0)]"
    by (simp add: db_chunks_eq search_vectors_def cosine_unit_same cosine_unit_orthogonal
        sort_desc_def py_take_def)
  then show ?thesis
    by (simp add: search_items_def) (simp add: db_chunks_eq)
qed

lemma semantic_search_example:
  "semantic_search plain_services engine_c1 db_chunks query_hybrid catalog_ab
     = Inr [(''A'', 1), (''B'', 0)]"
proof -
  have q: "get_embedding plain_services (query_text query_hybrid) = [1, 0]"
    "top_k query_hybrid = 5" "threshold query_hybrid = 0" "filters query_hybrid = None"
    by (simp_all add: plain_services_def query_hybrid_def)
  show ?thesis
    unfolding semantic_search_def q
    by (simp add: engine_c1_def search_items_db_chunks_5 catalog_ab_def)
qed

lemma keyword_scores_catalog_ab:
  "keyword_scores plain_services 0 query_hybrid catalog_ab = Inr [(''A'', 1), (''B'', 1 / 2)]"
  by (simp add: query_hybrid_def catalog_ab_def item_car_def item_bus_def lower_red_car
      lower_car lower_bus split_car split_bus split_red_car score_car score_bus Let_def)

lemma keyword_search_catalog_ab:
  "keyword_search plain_services 0 query_hybrid catalog_ab = Inr [(''A'', 1), (''B'', 1 / 2)]"
  unfolding keyword_search_def keyword_scores_catalog_ab
  by (simp add: sort_desc_def query_hybrid_def py_take_def)

lemma hybrid_search_example:
  "hybrid_search plain_services 0 engine_c1 db_chunks query_hybrid catalog_ab
     = Inr [(''A'', 1), (''B'', 3 / 20)]"
  unfolding hybrid_search_def semantic_search_example keyword_search_catalog_ab
  by (simp add: Let_def dict_of_pairs_def plain_services_def combined_score_def dict_get_def
      query_hybrid_def sort_desc_def py_take_def)

text \<open>
  Claim C5. In the result of a hybrid query over a catalog (a dictionary: every key once),
  the score reported for an item is \<open>0.7 * s + 0.3 * k\<close> when the item is in the semantic
  results with score \<open>s\<close> and in the keyword results with score \<open>k\<close>; it is \<open>0.7 * s\<close> when the
  item is in the semantic results only, and \<open>0.3 * k\<close> when it is in the keyword results
  only.
\<close>

theorem hybrid_search_weighted_sum:
  assumes "distinct (map fst items_dict)"
    and "semantic_search sv eng db query items_dict = Inr sr"
    and "keyword_search sv now query items_dict = Inr kr"
    and "hybrid_search sv now eng db query items_dict = Inr rs"
    and "(i, c) \<in> set rs"
  shows "((i, s) \<in> set sr \<and> (i, k) \<in> set kr \<longrightarrow> c = 0.7 * s + 0.3 * k)
       \<and> ((i, s) \<in> set sr \<and> i \<notin> fst ` set kr \<longrightarrow> c = 0.7 * s)
       \<and> (i \<notin> fst ` set sr \<and> (i, k) \<in> set kr \<longrightarrow> c = 0.3 * k)"
proof -
  note c = hybrid_search_score[OF assms(4) assms(2) assms(3) assms(5)]
  note ds = semantic_search_distinct[OF assms(2)]
  note dk = keyword_search_distinct[OF assms(3) assms(1)]
  have "c = 0.7 * s + 0.3 * k" if "(i, s) \<in> set sr" "(i, k) \<in> set kr"
    using c dict_get_member[OF ds that(1)] dict_get_member[OF dk that(2)]
    by (simp add: combined_score_def)
  moreover have "c = 0.7 * s" if "(i, s) \<in> set sr" "i \<notin> fst ` set kr"
    using c dict_get_member[OF ds that(1)] dict_get_absent[OF that(2)]
    by (simp add: combined_score_def)
  moreover have "c = 0.3 * k" if "i \<notin> fst ` set sr" "(i, k) \<in> set kr"
    using c dict_get_absent[OF that(1)] dict_get_member[OF dk that(2)]
    by (simp add: combined_score_def)
  ultimately show ?thesis by blast
qed


theorem hybrid_search_weighted_sum_witness:
  "semantic_search plain_services engine_c1 db_chunks query_hybrid catalog_ab
     = Inr [(''A'', 1), (''B'', 0)]
   \<and> keyword_search plain_services 0 query_hybrid catalog_ab = Inr [(''A'', 1), (''B'', 1 / 2)]
   \<and> hybrid_search plain_services 0 engine_c1 db_chunks query_hybrid catalog_ab
     = Inr [(''A'', 1), (''B'', 3 / 20)]
   \<and> (3 / 20 :: real) = 0.7 * 0 + 0.3 * (1 / 2)"
proof -
  have d: "distinct (map fst catalog_ab)" by (simp add: catalog_ab_def)
  have m: "(''B'', 3 / 20) \<in> set [(''A'', 1::real), (''B'', 3 / 20)]" by simp
  have "(3 / 20 :: real) = 0.7 * 0 + 0.3 * (1 / 2)"
    using hybrid_search_weighted_sum[OF d semantic_search_example keyword_search_catalog_ab
        hybrid_search_example m, of 0 "1 / 2"]
    by simp
  with semantic_search_example keyword_search_catalog_ab hybrid_search_example
  show ?thesis by blast
qed

section \<open>Memory manager: long-term items and context windows\<close>

lemma filed_by_id_update:
  "filed_by_id d \<Longrightarrow> item_id v = k \<Longrightarrow> filed_by_id (AList.update k v d)"
  by (induction d) (auto simp: filed_by_id_def)

lemma filed_by_id_delete: "filed_by_id d \<Longrightarrow> filed_by_id (AList.delete k d)"
  by (induction d) (auto simp: filed_by_id_def)

lemma filed_by_id_lookup: "filed_by_id d \<Longrightarrow> map_of d k = Some v \<Longrightarrow> item_id v = k"
  by (induction d) (auto simp: filed_by_id_def split: if_splits)

lemma ids_consistent_store:
  "ids_consistent mm \<Longrightarrow> ids_consistent (snd (store_item uuid item mm))"
  by (simp add: ids_consistent_def store_item_def Let_def filed_by_id_update)

lemma ids_consistent_retrieve:
  assumes "ids_consistent mm"
  shows "ids_consistent (snd (retrieve_item now iid mm))"
proof (cases "map_of (short_term_memory mm) iid")
  case (Some item)
  with assms filed_by_id_lookup[of "short_term_memory mm" iid item] show ?thesis
    by (simp add: ids_consistent_def retrieve_item_def Let_def filed_by_id_update)
next
  case None
  show ?thesis
  proof (cases "map_of (long_term_memory mm) iid")
    case (Some item)
    with None assms filed_by_id_lookup[of "long_term_memory mm" iid item] show ?thesis
      by (simp add: ids_consistent_def retrieve_item_def Let_def filed_by_id_update)
  next
    case N: None
    with None assms show ?thesis by (simp add: retrieve_item_def)
  qed
qed

lemma ids_consistent_update:
  "ids_consistent mm \<Longrightarrow> ids_consistent (snd (update_item item mm))"
  by (simp add: ids_consistent_def update_item_def filed_by_id_update)

lemma ids_consistent_delete:
  "ids_consistent mm \<Longrightarrow> ids_consistent (snd (delete_item iid mm))"
  by (simp add: ids_consistent_def delete_item_def filed_by_id_delete)

lemma ids_consistent_move_to_long_term:
  assumes "ids_consistent mm"
  shows "ids_consistent (snd (move_to_long_term iid mm))"
proof (cases "map_of (short_term_memory mm) iid")
  case None
  with assms show ?thesis by (simp add: move_to_long_term_def)
next
  case (Some item)
  with assms filed_by_id_lookup[of "short_term_memory mm" iid item] show ?thesis
    by (simp add: ids_consistent_def move_to_long_term_def filed_by_id_update
        filed_by_id_delete)
qed

lemma ids_consistent_move_to_short_term:
  assumes "ids_consistent mm"
  shows "ids_consistent (snd (move_to_short_term iid mm))"
proof (cases "map_of (long_term_memory mm) iid")
  case None
  with assms show ?thesis by (simp add: move_to_short_term_def)
next
  case (Some item)
  with assms filed_by_id_lookup[of "long_term_memory mm" iid item] show ?thesis
    by (simp add: ids_consistent_def move_to_short_term_def filed_by_id_update
        filed_by_id_delete)
qed

lemma ids_consistent_move_all:
  "ids_consistent mm \<Longrightarrow> ids_consistent (move_all ids mm)"
  by (induction ids arbitrary: mm) (auto simp: ids_consistent_move_to_long_term)

lemma ids_consistent_apply_op:
  "ids_consistent mm \<Longrightarrow> ids_consistent (apply_op op mm)"
  by (cases op)
    (simp_all add: ids_consistent_store ids_consistent_retrieve ids_consistent_update
      ids_consistent_delete ids_consistent_move_to_long_term ids_consistent_move_to_short_term
      ids_consistent_move_all optimize_memory_def)

lemma ids_consistent_init: "ids_consistent mm_init"
  by (simp add: ids_consistent_def filed_by_id_def mm_init_def)


lemma filed_by_id_ids: "filed_by_id d \<Longrightarrow> item_id ` snd ` set d = fst ` set d"
  by (induction d) (auto simp: filed_by_id_def)

lemma set_sort_by_strategy: "set (sort_by_strategy strat xs) = set xs"
  by (simp add: sort_by_strategy_def sort_desc_def)

lemma context_items_ids:
  "ci_item_id ` set (context_items now strat mm) = item_id ` snd ` set (short_term_memory mm)"
  by (simp add: context_items_def set_sort_by_strategy image_image context_item_of_def)

lemma window_items_subset:
  "set (window_items (create_context_window now uuid maxt strat mm))
     \<subseteq> set (context_items now strat mm)"
proof -
  obtain sel tot where r: "select_items maxt 0 (context_items now strat mm) = (sel, tot)"
    by (cases "select_items maxt 0 (context_items now strat mm)")
  from select_items_spec[OF r] obtain rest where "context_items now strat mm = sel @ rest"
    by blast
  with r show ?thesis by (simp add: create_context_window_def)
qed

lemma window_ids_short_term:
  assumes "ids_consistent mm"
  shows "ci_item_id ` set (window_items (create_context_window now uuid maxt strat mm))
           \<subseteq> fst ` set (short_term_memory mm)"
proof -
  from assms have "item_id ` snd ` set (short_term_memory mm) = fst ` set (short_term_memory mm)"
    by (simp add: ids_consistent_def filed_by_id_ids)
  with context_items_ids[of now strat mm] window_items_subset[of now uuid maxt strat mm]
  show ?thesis by blast
qed

lemma short_keys_store:
  "fst ` set (short_term_memory (snd (store_item uuid item mm)))
     = (if memory_type item = SHORT_TERM
        then insert (stored_id uuid item) (fst ` set (short_term_memory mm))
        else fst ` set (short_term_memory mm))"
  by (simp add: store_item_def stored_id_def Let_def dom_update)

lemma short_keys_move_to_long_term:
  "fst ` set (short_term_memory (snd (move_to_long_term iid mm)))
     \<subseteq> fst ` set (short_term_memory mm)"
  by (auto simp: move_to_long_term_def keys_delete split: option.splits)

lemma short_keys_move_all:
  "fst ` set (short_term_memory (move_all ids mm)) \<subseteq> fst ` set (short_term_memory mm)"
proof (induction ids arbitrary: mm)
  case Nil
  then show ?case by simp
next
  case (Cons a ids)
  from Cons.IH[of "snd (move_to_long_term a mm)"] short_keys_move_to_long_term[of a mm]
  show ?case by auto
qed

lemma short_keys_move_to_short_term:
  "fst ` set (short_term_memory (snd (move_to_short_term j mm)))
     \<subseteq> insert j (fst ` set (short_term_memory mm))"
  by (auto simp: move_to_short_term_def dom_update split: option.splits)

lemma short_keys_delete:
  "fst ` set (short_term_memory (snd (delete_item j mm))) \<subseteq> fst ` set (short_term_memory mm)"
  by (auto simp: delete_item_def keys_delete)

lemma stays_out_apply_op:
  assumes "\<not> enters_short_term iid op" and "iid \<notin> fst ` set (short_term_memory mm)"
  shows "iid \<notin> fst ` set (short_term_memory (apply_op op mm))"
proof (cases op)
  case (Store uuid item)
  with assms show ?thesis by (auto simp: short_keys_store)
next
  case (Retrieve now j)
  with assms show ?thesis by (simp add: keys_retrieve)
next
  case (Update item)
  with assms show ?thesis by (simp add: keys_update_item)
next
  case (Delete j)
  with assms short_keys_delete[of j mm] show ?thesis by auto
next
  case (MoveToLongTerm j)
  with assms short_keys_move_to_long_term[of j mm] show ?thesis by auto
next
  case (MoveToShortTerm j)
  with assms short_keys_move_to_short_term[of j mm] show ?thesis by auto
next
  case Optimize
  with assms short_keys_move_all[of "items_to_move mm" mm] show ?thesis
    by (auto simp: optimize_memory_def)
qed

lemma stays_out_run_ops:
  "\<forall>op\<in>set ops. \<not> enters_short_term iid op \<Longrightarrow>
   iid \<notin> fst ` set (short_term_memory mm) \<Longrightarrow>
   iid \<notin> fst ` set (short_term_memory (run_ops ops mm))"
proof (induction ops arbitrary: mm)
  case Nil
  then show ?case by simp
next
  case (Cons op ops)
  from Cons.prems have "iid \<notin> fst ` set (short_term_memory (apply_op op mm))"
    by (intro stays_out_apply_op) simp_all
  with Cons.IH[of "apply_op op mm"] Cons.prems(1) show ?case by simp
qed

lemma ids_consistent_run_ops: "ids_consistent mm \<Longrightarrow> ids_consistent (run_ops ops mm)"
  by (induction ops arbitrary: mm) (simp_all add: ids_consistent_apply_op)

lemma short_keys_ids:
  assumes "ids_consistent mm"
  shows "ci_item_id ` set (context_items now strat mm) = fst ` set (short_term_memory mm)"
  using assms by (simp add: context_items_ids ids_consistent_def filed_by_id_ids)

lemma mm_semantic_eq:
  "mm_semantic =
     \<lparr>short_term_memory = [], long_term_memory = [(''i1'', item_semantic)], categories = []\<rparr>"
  by (simp add: mm_semantic_def store_item_def item_semantic_def mem_item_def mm_init_def)

text \<open>
  The last sentence of claim C9 does not hold: the item \<open>i1\<close> is in the long-term tier and
  no window holds it; it is then stored again with the type \<open>SHORT_TERM\<close>, and the window
  holds it, without any \<open>move_to_short_term\<close>.
\<close>

theorem window_only_after_move_counterexample:
  "map fst (long_term_memory mm_semantic) = [''i1'']
   \<and> short_term_memory mm_semantic = []
   \<and> window_items (create_context_window 1 ''w'' 4000 ''importance_recency'' mm_semantic) = []
   \<and> map ci_item_id (window_items (create_context_window 1 ''w'' 4000 ''importance_recency''
        (snd (store_item ''u1'' (item_semantic\<lparr>memory_type := SHORT_TERM\<rparr>) mm_semantic))))
      = [''i1'']"
  by (simp add: mm_semantic_eq store_item_def item_semantic_def mem_item_def
      create_context_window_def context_items_def sort_by_strategy_def sort_desc_def
      context_item_of_def estimate_token_count_def)

text \<open>
  Claim C9. A memory item whose type is not \<open>SHORT_TERM\<close>, such as the item of type
  \<open>SEMANTIC\<close> that the text of \<open>add_knowledge_item\<close> passes to \<open>store_item\<close>, is filed in the
  long-term tier map, and the short-term tier map is as before. When every item is filed
  under its own id and the id is not a key of the short-term tier, no context window built
  right after the store holds the id, and neither does a window built after any operations
  of the memory manager none of which files an item under this id in the short-term tier.
  Two operations do so, and after either of them the item is among the candidates of the
  window: \<open>move_to_short_term\<close> of the id, and \<open>store_item\<close> of a short-term item that
  carries the id.
\<close>

theorem long_term_item_not_in_context_window:
  assumes "memory_type item \<noteq> SHORT_TERM"
    and "ids_consistent mm"
    and "stored_id uuid item \<notin> fst ` set (short_term_memory mm)"
    and "\<forall>op\<in>set ops. \<not> enters_short_term (stored_id uuid item) op"
    and "memory_type item2 = SHORT_TERM"
    and "stored_id uuid2 item2 = stored_id uuid item"
  shows "fst (store_item uuid item mm) = stored_id uuid item
    \<and> map_of (long_term_memory (snd (store_item uuid item mm))) (stored_id uuid item)
         = Some (item\<lparr>item_id := stored_id uuid item\<rparr>)
    \<and> short_term_memory (snd (store_item uuid item mm)) = short_term_memory mm
    \<and> stored_id uuid item \<notin> ci_item_id ` set (window_items
          (create_context_window now uuid_w maxt strat (snd (store_item uuid item mm))))
    \<and> stored_id uuid item \<notin> ci_item_id ` set (window_items
          (create_context_window now uuid_w maxt strat
             (run_ops ops (snd (store_item uuid item mm)))))
    \<and> stored_id uuid item \<in> ci_item_id ` set (context_items now strat
          (snd (move_to_short_term (stored_id uuid item) (snd (store_item uuid item mm)))))
    \<and> stored_id uuid item \<in> ci_item_id ` set (context_items now strat
          (snd (store_item uuid2 item2 (snd (store_item uuid item mm)))))"
proof -
  let ?iid = "stored_id uuid item"
  let ?mm' = "snd (store_item uuid item mm)"
  have r: "fst (store_item uuid item mm) = ?iid"
    by (simp add: store_item_def stored_id_def Let_def)
  have l: "map_of (long_term_memory ?mm') ?iid = Some (item\<lparr>item_id := ?iid\<rparr>)"
    using assms(1) by (simp add: store_item_def stored_id_def Let_def update_conv')
  have s: "short_term_memory ?mm' = short_term_memory mm"
    using assms(1) by (simp add: store_item_def Let_def)
  from assms(3) s have out: "?iid \<notin> fst ` set (short_term_memory ?mm')" by simp
  from assms(2) have c: "ids_consistent ?mm'" by (rule ids_consistent_store)
  from window_ids_short_term[OF c] out
  have w: "?iid \<notin> ci_item_id ` set (window_items
          (create_context_window now uuid_w maxt strat ?mm'))"
    by blast
  from stays_out_run_ops[OF assms(4) out]
    window_ids_short_term[OF ids_consistent_run_ops[OF c]]
  have o: "?iid \<notin> ci_item_id ` set (window_items
          (create_context_window now uuid_w maxt strat (run_ops ops ?mm')))"
    by blast
  have "?iid \<in> fst ` set (short_term_memory (snd (move_to_short_term ?iid ?mm')))"
    by (simp add: move_to_short_term_def l dom_update)
  then have mv: "?iid \<in> ci_item_id ` set (context_items now strat
          (snd (move_to_short_term ?iid ?mm')))"
    by (simp add: short_keys_ids[OF ids_consistent_move_to_short_term[OF c]])
  have "?iid \<in> fst ` set (short_term_memory (snd (store_item uuid2 item2 ?mm')))"
    using assms(5,6) by (simp add: short_keys_store)
  then have st: "?iid \<in> ci_item_id ` set (context_items now strat
          (snd (store_item uuid2 item2 ?mm')))"
    by (simp add: short_keys_ids[OF ids_consistent_store[OF c]])
  from r l s w o mv st show ?thesis by simp
qed

theorem long_term_item_not_in_context_window_witness:
  "fst (store_item ''u0'' item_semantic mm_init) = ''i1''
   \<and> map fst (long_term_memory mm_semantic) = [''i1'']
   \<and> short_term_memory mm_semantic = []
   \<and> ''i1'' \<notin> ci_item_id ` set (window_items
          (create_context_window 1 ''w'' 4000 ''importance_recency'' mm_semantic))
   \<and> ''i1'' \<notin> ci_item_id ` set (window_items
          (create_context_window 1 ''w'' 4000 ''importance_recency''
             (run_ops [Retrieve 1 ''i1'', Optimize] mm_semantic)))
   \<and> ''i1'' \<in> ci_item_id ` set (context_items 1 ''importance_recency''
          (snd (move_to_short_term ''i1'' mm_semantic)))
   \<and> ''i1'' \<in> ci_item_id ` set (context_items 1 ''importance_recency''
          (snd (store_item ''u1'' (item_semantic\<lparr>memory_type := SHORT_TERM\<rparr>) mm_semantic)))
   \<and> map ci_item_id (window_items (create_context_window 1 ''w'' 4000 ''importance_recency''
          (snd (move_to_short_term ''i1'' mm_semantic)))) = [''i1'']"
proof -
  have t: "memory_type item_semantic \<noteq> SHORT_TERM"
    by (simp add: item_semantic_def mem_item_def)
  have i: "stored_id ''u0'' item_semantic = ''i1''"
    by (simp add: stored_id_def item_semantic_def mem_item_def)
  have f: "stored_id ''u0'' item_semantic \<notin> fst ` set (short_term_memory mm_init)"
    by (simp add: mm_init_def)
  have o: "\<forall>op\<in>set [Retrieve 1 ''i1'', Optimize].
             \<not> enters_short_term (stored_id ''u0'' item_semantic) op"
    by (simp add: i)
  have t2: "memory_type (item_semantic\<lparr>memory_type := SHORT_TERM\<rparr>) = SHORT_TERM"
    by simp
  have i2: "stored_id ''u1'' (item_semantic\<lparr>memory_type := SHORT_TERM\<rparr>)
              = stored_id ''u0'' item_semantic"
    by (simp add: stored_id_def item_semantic_def mem_item_def)
  note th = long_term_item_not_in_context_window[OF t ids_consistent_init f o t2 i2,
      of 1 "''w''" 4000 "''importance_recency''"]
  have m: "map ci_item_id (window_items (create_context_window 1 ''w'' 4000
             ''importance_recency'' (snd (move_to_short_term ''i1'' mm_semantic)))) = [''i1'']"
    by (simp add: mm_semantic_eq move_to_short_term_def item_semantic_def mem_item_def
        create_context_window_def context_items_def sort_by_strategy_def sort_desc_def
        context_item_of_def estimate_token_count_def)
  from th m show ?thesis
    unfolding i mm_semantic_def[symmetric] by (simp add: mm_semantic_eq)
qed

section \<open>Vector database: the reverse index\<close>

lemma entry_at_None_collection:
  "map_of (entries db) cid = None \<Longrightarrow> entry_at db cid eid = None"
  by (simp add: entry_at_def)

lemma vdb_inv_distinct: "vdb_inv db \<Longrightarrow> distinct (get_item_vectors iid db)"
  by (simp add: vdb_inv_def)

lemma vdb_inv_vectors: "vdb_inv db \<Longrightarrow> set (get_item_vectors iid db) = vectors_of_item db iid"
  by (simp add: vdb_inv_def)

lemma vdb_inv_nonempty: "vdb_inv db \<Longrightarrow> map_of (item_mapping db) iid \<noteq> Some []"
  by (simp add: vdb_inv_def)

lemma vdb_inv_keys:
  "vdb_inv db \<Longrightarrow> (map_of (collections db) cid = None) = (map_of (entries db) cid = None)"
  by (simp add: vdb_inv_def)

lemma delete_vector_absent:
  assumes "vdb_inv db" and "entry_at db cid eid = None"
  shows "delete_vector cid eid db = (Inr False, db)"
proof (cases "map_of (collections db) cid")
  case None
  then show ?thesis by (simp add: delete_vector_def)
next
  case (Some c)
  with vdb_inv_keys[OF assms(1), of cid] obtain es where es: "map_of (entries db) cid = Some es"
    by (cases "map_of (entries db) cid") auto
  with assms(2) have "map_of es eid = None" by (simp add: entry_at_def)
  with Some es show ?thesis by (simp add: delete_vector_def)
qed

lemma delete_vector_present:
  assumes inv: "vdb_inv db" and e: "entry_at db cid eid = Some entry"
  shows "\<exists>db'. delete_vector cid eid db = (Inr True, db')
    \<and> collections db' = collections db
    \<and> (\<forall>c. map_of (entries db') c = None \<longleftrightarrow> map_of (entries db) c = None)
    \<and> (\<forall>c x. entry_at db' c x = (if c = cid \<and> x = eid then None else entry_at db c x))
    \<and> (\<forall>j. get_item_vectors j db'
           = (if j = entry_item_id entry
              then filter (\<lambda>p. p \<noteq> (cid, eid)) (get_item_vectors j db)
              else get_item_vectors j db))
    \<and> (\<forall>j. map_of (item_mapping db') j \<noteq> Some [])"
proof -
  from e obtain es where es: "map_of (entries db) cid = Some es" and ee: "map_of es eid = Some entry"
    by (auto simp: entry_at_def split: option.splits)
  from vdb_inv_keys[OF inv, of cid] es have c: "map_of (collections db) cid \<noteq> None" by simp
  let ?iid = "entry_item_id entry"
  from e have "(cid, eid) \<in> vectors_of_item db ?iid" by (auto simp: vectors_of_item_def)
  with inv have mem: "(cid, eid) \<in> set (get_item_vectors ?iid db)" by (simp add: vdb_inv_vectors)
  then obtain l where l: "map_of (item_mapping db) ?iid = Some l"
    by (cases "map_of (item_mapping db) ?iid") (auto simp: get_item_vectors_def)
  let ?l' = "filter (\<lambda>(c_id, e_id). c_id \<noteq> cid \<or> e_id \<noteq> eid) l"
  have l': "?l' = filter (\<lambda>p. p \<noteq> (cid, eid)) l"
    by (rule filter_cong) auto
  let ?ents = "AList.update cid (AList.delete eid es) (entries db)"
  let ?m1 = "AList.update ?iid ?l' (item_mapping db)"
  let ?m2 = "if ?l' = [] then AList.delete ?iid ?m1 else ?m1"
  let ?db' = "db\<lparr>entries := ?ents, item_mapping := ?m2\<rparr>"
  have r: "delete_vector cid eid db = (Inr True, ?db')"
    using c es ee l by (auto simp: delete_vector_def Let_def)
  have k: "\<forall>c. map_of (entries ?db') c = None \<longleftrightarrow> map_of (entries db) c = None"
    using es by (simp add: update_conv')
  have ea: "\<forall>c x. entry_at ?db' c x = (if c = cid \<and> x = eid then None else entry_at db c x)"
    using es by (auto simp: entry_at_def update_conv' delete_conv')
  have g: "\<forall>j. get_item_vectors j ?db'
           = (if j = ?iid then filter (\<lambda>p. p \<noteq> (cid, eid)) (get_item_vectors j db)
              else get_item_vectors j db)"
    using l l' by (auto simp: get_item_vectors_def update_conv' delete_conv')
  have n: "\<forall>j. map_of (item_mapping ?db') j \<noteq> Some []"
    using vdb_inv_nonempty[OF inv] by (auto simp: update_conv' delete_conv')
  have "collections ?db' = collections db" by simp
  with r k ea g n show ?thesis by blast
qed


lemma vectors_of_item_after_delete:
  assumes "\<forall>c x. entry_at db' c x = (if c = cid \<and> x = eid then None else entry_at db c x)"
  shows "vectors_of_item db' j = vectors_of_item db j - {(cid, eid)}"
  by (auto simp: vectors_of_item_def assms)

lemma delete_vector_inv:
  assumes inv: "vdb_inv db"
  shows "vdb_inv (snd (delete_vector cid eid db))"
proof (cases "entry_at db cid eid")
  case None
  with delete_vector_absent[OF inv] inv show ?thesis by simp
next
  case (Some entry)
  from delete_vector_present[OF inv Some]
  obtain db' where r: "delete_vector cid eid db = (Inr True, db')"
    and c: "collections db' = collections db"
    and k: "\<forall>c. map_of (entries db') c = None \<longleftrightarrow> map_of (entries db) c = None"
    and ea: "\<forall>c x. entry_at db' c x = (if c = cid \<and> x = eid then None else entry_at db c x)"
    and g: "\<forall>j. get_item_vectors j db'
           = (if j = entry_item_id entry
              then filter (\<lambda>p. p \<noteq> (cid, eid)) (get_item_vectors j db)
              else get_item_vectors j db)"
    and n: "\<forall>j. map_of (item_mapping db') j \<noteq> Some []"
    by blast
  note v = vectors_of_item_after_delete[of db' cid eid db, OF ea]
  have d: "distinct (get_item_vectors j db')" for j
    using vdb_inv_distinct[OF inv, of j] by (cases "j = entry_item_id entry") (simp_all add: g)
  have s: "set (get_item_vectors j db') = vectors_of_item db' j" for j
  proof (cases "j = entry_item_id entry")
    case True
    then show ?thesis using vdb_inv_vectors[OF inv, of j] by (auto simp: g v)
  next
    case False
    with Some have "(cid, eid) \<notin> vectors_of_item db j"
      by (auto simp: vectors_of_item_def)
    with False show ?thesis using vdb_inv_vectors[OF inv, of j] by (simp add: g v)
  qed
  have kk: "(map_of (collections db') c' = None) = (map_of (entries db') c' = None)" for c'
    using vdb_inv_keys[OF inv, of c'] by (simp add: c k)
  from d s n kk have "vdb_inv db'" unfolding vdb_inv_def by blast
  with r show ?thesis by simp
qed

lemma delete_vectors_loop_spec:
  assumes "vdb_inv db" and "distinct l" and "set l \<subseteq> vectors_of_item db iid"
  shows "\<exists>db'. delete_vectors_loop l count db = (Inr (count + length l), db')
           \<and> vdb_inv db'
           \<and> collections db' = collections db
           \<and> (\<forall>j. vectors_of_item db' j = vectors_of_item db j - set l)"
  using assms
proof (induction l arbitrary: db count)
  case Nil
  then show ?case by simp
next
  case (Cons p l)
  obtain cid eid where p: "p = (cid, eid)" by (cases p)
  from Cons.prems(3) obtain entry where e: "entry_at db cid eid = Some entry"
    and ei: "entry_item_id entry = iid"
    unfolding p by (auto simp: vectors_of_item_def)
  from delete_vector_present[OF Cons.prems(1) e]
  obtain db1 where r: "delete_vector cid eid db = (Inr True, db1)"
    and c: "collections db1 = collections db"
    and ea: "\<forall>c x. entry_at db1 c x = (if c = cid \<and> x = eid then None else entry_at db c x)"
    by blast
  note v = vectors_of_item_after_delete[of db1 cid eid db, OF ea]
  from delete_vector_inv[OF Cons.prems(1), of cid eid] r have inv1: "vdb_inv db1" by simp
  from Cons.prems(2) have dl: "distinct l" and np: "(cid, eid) \<notin> set l" unfolding p by simp_all
  from Cons.prems(3) np have sub: "set l \<subseteq> vectors_of_item db1 iid"
    unfolding p by (auto simp: v)
  from Cons.IH[OF inv1 dl sub, of "count + 1"] obtain db' where
    l: "delete_vectors_loop l (count + 1) db1 = (Inr (count + 1 + length l), db')"
    and i': "vdb_inv db'" and c': "collections db' = collections db1"
    and v': "\<forall>j. vectors_of_item db' j = vectors_of_item db1 j - set l"
    by blast
  have "delete_vectors_loop (p # l) count db = (Inr (count + length (p # l)), db')"
    unfolding p using r l by simp
  moreover have "\<forall>j. vectors_of_item db' j = vectors_of_item db j - set (p # l)"
    unfolding p using v' by (auto simp: v)
  ultimately show ?case using i' c c' by auto
qed

lemma delete_item_vectors_spec:
  assumes inv: "vdb_inv db"
  shows "\<exists>db'. delete_item_vectors iid db = (Inr (length (get_item_vectors iid db)), db')
           \<and> vdb_inv db'
           \<and> collections db' = collections db
           \<and> vectors_of_item db' iid = {}
           \<and> (\<forall>j. j \<noteq> iid \<longrightarrow> vectors_of_item db' j = vectors_of_item db j)
           \<and> map_of (item_mapping db') iid = None"
proof -
  let ?l = "get_item_vectors iid db"
  from delete_vectors_loop_spec[OF inv vdb_inv_distinct[OF inv, of iid], of iid 0]
    vdb_inv_vectors[OF inv, of iid]
  obtain db' where l: "delete_vectors_loop ?l 0 db = (Inr (length ?l), db')"
    and i': "vdb_inv db'" and c': "collections db' = collections db"
    and v': "\<forall>j. vectors_of_item db' j = vectors_of_item db j - set ?l"
    by auto
  have r: "delete_item_vectors iid db = (Inr (length ?l), db')"
  proof (cases "map_of (item_mapping db) iid")
    case None
    with l show ?thesis by (simp add: delete_item_vectors_def get_item_vectors_def)
  next
    case (Some a)
    with l show ?thesis by (simp add: delete_item_vectors_def get_item_vectors_def)
  qed
  from v' vdb_inv_vectors[OF inv, of iid] have e: "vectors_of_item db' iid = {}" by simp
  have o: "\<forall>j. j \<noteq> iid \<longrightarrow> vectors_of_item db' j = vectors_of_item db j"
  proof (intro allI impI)
    fix j assume "j \<noteq> iid"
    then have "vectors_of_item db j \<inter> vectors_of_item db iid = {}"
      by (auto simp: vectors_of_item_def)
    with v' vdb_inv_vectors[OF inv, of iid] show "vectors_of_item db' j = vectors_of_item db j"
      by auto
  qed
  from e vdb_inv_vectors[OF i', of iid] have "get_item_vectors iid db' = []" by simp
  with vdb_inv_nonempty[OF i', of iid] have "map_of (item_mapping db') iid = None"
    by (cases "map_of (item_mapping db') iid") (auto simp: get_item_vectors_def)
  with r i' c' e o show ?thesis by blast
qed


lemma vdb_inv_init: "vdb_inv vdb_init"
  by (simp add: vdb_inv_def vdb_init_def get_item_vectors_def vectors_of_item_def entry_at_def)

lemma create_collection_inv:
  assumes inv: "vdb_inv db" and fresh: "map_of (collections db) uuid = None"
  shows "vdb_inv (snd (create_collection uuid nm dimn ity db))"
proof -
  let ?db' = "snd (create_collection uuid nm dimn ity db)"
  from vdb_inv_keys[OF inv, of uuid] fresh have fe: "map_of (entries db) uuid = None" by simp
  have ea: "entry_at ?db' c x = entry_at db c x" for c x
    using fe by (simp add: create_collection_def entry_at_def update_conv')
  then have v: "vectors_of_item ?db' j = vectors_of_item db j" for j
    by (simp add: vectors_of_item_def)
  have g: "get_item_vectors j ?db' = get_item_vectors j db" for j
    by (simp add: create_collection_def get_item_vectors_def)
  have m: "item_mapping ?db' = item_mapping db"
    by (simp add: create_collection_def)
  have k: "(map_of (collections ?db') c = None) = (map_of (entries ?db') c = None)" for c
    using vdb_inv_keys[OF inv, of c] by (simp add: create_collection_def update_conv')
  from vdb_inv_distinct[OF inv] vdb_inv_vectors[OF inv] vdb_inv_nonempty[OF inv] k
  show ?thesis unfolding vdb_inv_def by (simp add: v g m)
qed

lemma add_vector_spec:
  assumes inv: "vdb_inv db" and c: "map_of (collections db) cid = Some col"
    and d: "int (length vec) = dimension col" and fresh: "entry_at db cid uuid = None"
  shows "\<exists>db'. add_vector uuid cid vec iid md db = (Inr uuid, db')
     \<and> vdb_inv db'
     \<and> collections db' = collections db
     \<and> get_item_vectors iid db' = get_item_vectors iid db @ [(cid, uuid)]
     \<and> vectors_of_item db' iid = insert (cid, uuid) (vectors_of_item db iid)
     \<and> (\<forall>j. j \<noteq> iid \<longrightarrow> vectors_of_item db' j = vectors_of_item db j)"
proof -
  from vdb_inv_keys[OF inv, of cid] c obtain es where es: "map_of (entries db) cid = Some es"
    by (cases "map_of (entries db) cid") auto
  let ?entry = "\<lparr>entry_id = uuid, entry_vector = vec, entry_item_id = iid,
                 entry_metadata = (case md of None \<Rightarrow> [] | Some m \<Rightarrow> m)\<rparr>"
  let ?old = "case map_of (item_mapping db) iid of None \<Rightarrow> [] | Some l \<Rightarrow> l"
  let ?db' = "db\<lparr>entries := AList.update cid (AList.update uuid ?entry es) (entries db),
                 item_mapping := AList.update iid (?old @ [(cid, uuid)]) (item_mapping db)\<rparr>"
  have r: "add_vector uuid cid vec iid md db = (Inr uuid, ?db')"
    using c d es by (simp add: add_vector_def Let_def)
  have ea: "entry_at ?db' c x = (if c = cid \<and> x = uuid then Some ?entry else entry_at db c x)"
    for c x
    using es by (auto simp: entry_at_def update_conv')
  have g: "get_item_vectors j ?db'
             = (if j = iid then get_item_vectors iid db @ [(cid, uuid)] else get_item_vectors j db)"
    for j
    by (simp add: get_item_vectors_def update_conv')
  have v: "vectors_of_item ?db' j
             = (if j = iid then insert (cid, uuid) (vectors_of_item db j)
                else vectors_of_item db j)" for j
    using fresh by (auto simp: vectors_of_item_def ea)
  have nin: "(cid, uuid) \<notin> set (get_item_vectors j db)" for j
    using fresh vdb_inv_vectors[OF inv, of j] by (auto simp: vectors_of_item_def)
  have dd: "distinct (get_item_vectors j ?db')" for j
    using vdb_inv_distinct[OF inv, of j] nin[of j] by (cases "j = iid") (simp_all add: g)
  have ss: "set (get_item_vectors j ?db') = vectors_of_item ?db' j" for j
    using vdb_inv_vectors[OF inv, of j] by (cases "j = iid") (simp_all add: g v)
  have nn: "map_of (item_mapping ?db') j \<noteq> Some []" for j
    using vdb_inv_nonempty[OF inv, of j] by (simp add: update_conv')
  have kk: "(map_of (collections ?db') c' = None) = (map_of (entries ?db') c' = None)" for c'
    using vdb_inv_keys[OF inv, of c'] es by (simp add: update_conv')
  from dd ss nn kk have i': "vdb_inv ?db'" unfolding vdb_inv_def by blast
  have "collections ?db' = collections db" by simp
  with r i' g[of iid] v show ?thesis by (intro exI[of _ ?db']) simp
qed


lemma add_vector_inv:
  assumes inv: "vdb_inv db" and fresh: "entry_at db cid uuid = None"
  shows "vdb_inv (snd (add_vector uuid cid vec iid md db))"
proof (cases "map_of (collections db) cid")
  case None
  with inv show ?thesis by (simp add: add_vector_def)
next
  case (Some col)
  show ?thesis
  proof (cases "int (length vec) = dimension col")
    case False
    with Some inv show ?thesis by (simp add: add_vector_def)
  next
    case True
    from add_vector_spec[OF inv Some True fresh, where iid = iid and md = md] show ?thesis by auto
  qed
qed


lemma unmap_entries_spec:
  "(\<forall>j. map_of m j \<noteq> Some []) \<Longrightarrow>
   (\<forall>j. map_of (unmap_entries cid es m) j \<noteq> Some [])
   \<and> (\<forall>j. (case map_of (unmap_entries cid es m) j of None \<Rightarrow> [] | Some l \<Rightarrow> l)
          = (if j \<in> entry_item_id ` set es
             then filter (\<lambda>(c_id, e_id). c_id \<noteq> cid)
                    (case map_of m j of None \<Rightarrow> [] | Some l \<Rightarrow> l)
             else (case map_of m j of None \<Rightarrow> [] | Some l \<Rightarrow> l)))"
proof (induction es arbitrary: m)
  case Nil
  then show ?case by simp
next
  case (Cons entry es)
  let ?iid = "entry_item_id entry"
  show ?case
  proof (cases "map_of m ?iid")
    case None
    from Cons.IH[OF Cons.prems] None show ?thesis by auto
  next
    case (Some l)
    let ?l' = "filter (\<lambda>(c_id, e_id). c_id \<noteq> cid) l"
    let ?m1 = "AList.update ?iid ?l' m"
    let ?m2 = "if ?l' = [] then AList.delete ?iid ?m1 else ?m1"
    have u: "unmap_entries cid (entry # es) m = unmap_entries cid es ?m2"
      using Some by (simp add: Let_def)
    have n2: "\<forall>j. map_of ?m2 j \<noteq> Some []"
      using Cons.prems by (auto simp: update_conv' delete_conv')
    have l2: "(case map_of ?m2 j of None \<Rightarrow> [] | Some l \<Rightarrow> l)
                = (if j = ?iid then ?l' else (case map_of m j of None \<Rightarrow> [] | Some l \<Rightarrow> l))"
      for j
      by (auto simp: update_conv' delete_conv')
    note ih = Cons.IH[OF n2]
    have "(case map_of (unmap_entries cid es ?m2) j of None \<Rightarrow> [] | Some l \<Rightarrow> l)
          = (if j \<in> entry_item_id ` set (entry # es)
             then filter (\<lambda>(c_id, e_id). c_id \<noteq> cid)
                    (case map_of m j of None \<Rightarrow> [] | Some l \<Rightarrow> l)
             else (case map_of m j of None \<Rightarrow> [] | Some l \<Rightarrow> l))" for j
    proof (cases "j = ?iid")
      case True
      with ih l2[of j] Some show ?thesis by simp
    next
      case False
      with ih l2[of j] show ?thesis by simp
    qed
    with ih show ?thesis unfolding u by blast
  qed
qed

lemma delete_collection_inv:
  assumes inv: "vdb_inv db"
  shows "vdb_inv (snd (delete_collection cid db))"
proof (cases "map_of (collections db) cid")
  case None
  with inv show ?thesis by (simp add: delete_collection_def)
next
  case (Some col)
  with vdb_inv_keys[OF inv, of cid] obtain es where es: "map_of (entries db) cid = Some es"
    by (cases "map_of (entries db) cid") auto
  let ?m = "unmap_entries cid (map snd es) (item_mapping db)"
  let ?db' = "db\<lparr>item_mapping := ?m, collections := AList.delete cid (collections db),
                 entries := AList.delete cid (entries db)\<rparr>"
  have r: "snd (delete_collection cid db) = ?db'"
    using Some es by (simp add: delete_collection_def)
  from unmap_entries_spec[of "item_mapping db" cid "map snd es"] vdb_inv_nonempty[OF inv]
  have nn: "\<forall>j. map_of ?m j \<noteq> Some []"
    and lk: "\<forall>j. (case map_of ?m j of None \<Rightarrow> [] | Some l \<Rightarrow> l)
          = (if j \<in> entry_item_id ` set (map snd es)
             then filter (\<lambda>(c_id, e_id). c_id \<noteq> cid) (get_item_vectors j db)
             else get_item_vectors j db)"
    unfolding get_item_vectors_def by blast+
  have ea: "entry_at ?db' c x = (if c = cid then None else entry_at db c x)" for c x
    by (simp add: entry_at_def delete_conv')
  have v: "vectors_of_item ?db' j = {(c, e). (c, e) \<in> vectors_of_item db j \<and> c \<noteq> cid}" for j
    by (auto simp: vectors_of_item_def ea)
  have g: "get_item_vectors j ?db' = filter (\<lambda>(c_id, e_id). c_id \<noteq> cid) (get_item_vectors j db)"
    for j
  proof (cases "j \<in> entry_item_id ` set (map snd es)")
    case True
    with lk show ?thesis by (simp add: get_item_vectors_def)
  next
    case False
    have "\<forall>p\<in>set (get_item_vectors j db). fst p \<noteq> cid"
    proof
      fix p assume p: "p \<in> set (get_item_vectors j db)"
      obtain c e where pe: "p = (c, e)" by (cases p)
      from p vdb_inv_vectors[OF inv, of j] obtain entry where
        en: "entry_at db c e = Some entry" and ei: "entry_item_id entry = j"
        unfolding pe by (auto simp: vectors_of_item_def)
      show "fst p \<noteq> cid"
      proof
        assume "fst p = cid"
        with pe en es have "map_of es e = Some entry" by (simp add: entry_at_def)
        then have "(e, entry) \<in> set es" by (rule map_of_SomeD)
        then have "entry \<in> set (map snd es)" by force
        with ei False show False by auto
      qed
    qed
    then have "filter (\<lambda>(c_id, e_id). c_id \<noteq> cid) (get_item_vectors j db) = get_item_vectors j db"
      by (intro filter_True) auto
    with False lk show ?thesis by (simp add: get_item_vectors_def)
  qed
  have dd: "distinct (get_item_vectors j ?db')" for j
    using vdb_inv_distinct[OF inv, of j] by (simp add: g)
  have ss: "set (get_item_vectors j ?db') = vectors_of_item ?db' j" for j
    using vdb_inv_vectors[OF inv, of j] unfolding g v by auto
  have n': "map_of (item_mapping ?db') j \<noteq> Some []" for j
    using nn by simp
  have kk: "(map_of (collections ?db') c' = None) = (map_of (entries ?db') c' = None)" for c'
    using vdb_inv_keys[OF inv, of c'] by (simp add: delete_conv')
  from dd ss n' kk have "vdb_inv ?db'" unfolding vdb_inv_def by blast
  with r show ?thesis by simp
qed

section \<open>Memory manager: categories\<close>

lemma category_ok_mono: "category_ok K c \<Longrightarrow> K \<subseteq> K' \<Longrightarrow> category_ok K' c"
  by (auto simp: category_ok_def)

lemma categories_wf_iff:
  "categories_wf mm \<longleftrightarrow>
     (\<forall>k c. (k, c) \<in> set (categories mm) \<longrightarrow> category_ok (memory_ids mm) c)"
  by (auto simp: categories_wf_def list_all_iff)

lemma categories_wf_mono:
  assumes "categories_wf mm" and "categories mm' = categories mm"
    and "memory_ids mm \<subseteq> memory_ids mm'"
  shows "categories_wf mm'"
  unfolding categories_wf_iff
proof (intro allI impI)
  fix k c assume "(k, c) \<in> set (categories mm')"
  with assms(2) have "(k, c) \<in> set (categories mm)" by simp
  with assms(1) have "category_ok (memory_ids mm) c"
    unfolding categories_wf_iff by blast
  then show "category_ok (memory_ids mm') c"
    using assms(3) by (rule category_ok_mono)
qed

lemma categories_wf_init: "categories_wf mm_init"
  by (simp add: categories_wf_def mm_init_def)

lemma memory_ids_store: "memory_ids mm \<subseteq> memory_ids (snd (store_item uuid item mm))"
  by (auto simp: memory_ids_def store_item_def Let_def dom_update)

lemma categories_wf_store:
  "categories_wf mm \<Longrightarrow> categories_wf (snd (store_item uuid item mm))"
  by (erule categories_wf_mono) (simp_all add: memory_ids_store, simp add: store_item_def Let_def)

lemma categories_wf_retrieve:
  "categories_wf mm \<Longrightarrow> categories_wf (snd (retrieve_item now iid mm))"
proof (erule categories_wf_mono)
  show "categories (snd (retrieve_item now iid mm)) = categories mm"
    by (simp add: retrieve_item_def Let_def split: option.splits)
  show "memory_ids mm \<subseteq> memory_ids (snd (retrieve_item now iid mm))"
    by (simp add: memory_ids_def keys_retrieve)
qed

lemma categories_wf_update:
  "categories_wf mm \<Longrightarrow> categories_wf (snd (update_item item mm))"
proof (erule categories_wf_mono)
  show "categories (snd (update_item item mm)) = categories mm"
    by (simp add: update_item_def)
  show "memory_ids mm \<subseteq> memory_ids (snd (update_item item mm))"
    by (simp add: memory_ids_def keys_update_item)
qed

lemma categories_wf_move_to_long_term:
  "categories_wf mm \<Longrightarrow> categories_wf (snd (move_to_long_term iid mm))"
proof (erule categories_wf_mono)
  show "categories (snd (move_to_long_term iid mm)) = categories mm"
    by (simp add: move_to_long_term_def split: option.splits)
  show "memory_ids mm \<subseteq> memory_ids (snd (move_to_long_term iid mm))"
    by (auto simp: memory_ids_def move_to_long_term_def keys_delete dom_update
        split: option.splits)
qed

lemma categories_wf_move_to_short_term:
  "categories_wf mm \<Longrightarrow> categories_wf (snd (move_to_short_term iid mm))"
proof (erule categories_wf_mono)
  show "categories (snd (move_to_short_term iid mm)) = categories mm"
    by (simp add: move_to_short_term_def split: option.splits)
  show "memory_ids mm \<subseteq> memory_ids (snd (move_to_short_term iid mm))"
    by (auto simp: memory_ids_def move_to_short_term_def keys_delete dom_update
        split: option.splits)
qed

lemma categories_wf_move_all:
  "categories_wf mm \<Longrightarrow> categories_wf (move_all ids mm)"
  by (induction ids arbitrary: mm) (auto simp: categories_wf_move_to_long_term)


lemma categories_update_cases:
  assumes "(k, c) \<in> set (AList.update key new cats)"
  shows "(k, c) = (key, new) \<or> (k, c) \<in> set cats"
  using assms set_update_subset[of key new cats] by blast

lemma categories_wf_create_category:
  assumes "categories_wf mm"
  shows "categories_wf (snd (create_category uuid nm descr parent mm))"
proof -
  let ?c = "\<lparr>category_id = uuid, category_name = nm, description = descr,
                       parent_id = parent, items = []\<rparr>"
  let ?mm' = "mm\<lparr>categories := AList.update uuid ?c (categories mm)\<rparr>"
  have r: "snd (create_category uuid nm descr parent mm) = ?mm'"
    by (simp add: create_category_def Let_def)
  have ids: "memory_ids ?mm' = memory_ids mm" by (simp add: memory_ids_def)
  have new: "category_ok (memory_ids mm) ?c" by (simp add: category_ok_def)
  show ?thesis
    unfolding r categories_wf_iff ids
  proof (intro allI impI)
    fix k c assume "(k, c) \<in> set (categories ?mm')"
    then have "(k, c) \<in> set (AList.update uuid ?c (categories mm))" by simp
    from categories_update_cases[OF this] show "category_ok (memory_ids mm) c"
    proof
      assume "(k, c) = (uuid, ?c)"
      with new show ?thesis by simp
    next
      assume "(k, c) \<in> set (categories mm)"
      with assms show ?thesis unfolding categories_wf_iff by blast
    qed
  qed
qed

lemma categories_wf_add_item_to_category:
  assumes "categories_wf mm"
  shows "categories_wf (snd (add_item_to_category iid cid mm))"
proof (cases "map_of (categories mm) cid")
  case None
  with assms show ?thesis by (simp add: add_item_to_category_def)
next
  case (Some category)
  show ?thesis
  proof (cases "(map_of (short_term_memory mm) iid = None \<and> map_of (long_term_memory mm) iid = None)
                \<or> iid \<in> set (items category)")
    case True
    with Some assms show ?thesis by (auto simp: add_item_to_category_def)
  next
    case False
    then have k: "iid \<in> memory_ids mm" and ni: "iid \<notin> set (items category)"
      by (auto simp: memory_ids_def map_of_None_iff)
    let ?c = "category\<lparr>items := items category @ [iid]\<rparr>"
    let ?mm' = "mm\<lparr>categories := AList.update cid ?c (categories mm)\<rparr>"
    have r: "snd (add_item_to_category iid cid mm) = ?mm'"
      using Some False by (auto simp: add_item_to_category_def)
    have ids: "memory_ids ?mm' = memory_ids mm" by (simp add: memory_ids_def)
    from Some have "(cid, category) \<in> set (categories mm)" by (rule map_of_SomeD)
    with assms have "category_ok (memory_ids mm) category"
      unfolding categories_wf_iff by blast
    with k ni have new: "category_ok (memory_ids mm) ?c" by (simp add: category_ok_def)
    show ?thesis
      unfolding r categories_wf_iff ids
    proof (intro allI impI)
      fix k' c assume "(k', c) \<in> set (categories ?mm')"
      then have "(k', c) \<in> set (AList.update cid ?c (categories mm))" by simp
      from categories_update_cases[OF this] show "category_ok (memory_ids mm) c"
      proof
        assume "(k', c) = (cid, ?c)"
        with new show ?thesis by simp
      next
        assume "(k', c) \<in> set (categories mm)"
        with assms show ?thesis unfolding categories_wf_iff by blast
      qed
    qed
  qed
qed

lemma purge_category_ok:
  assumes "category_ok K category" and "K - {iid} \<subseteq> K'"
  shows "category_ok K' (purge_category iid category)
         \<and> iid \<notin> set (items (purge_category iid category))"
  using assms by (auto simp: category_ok_def purge_category_def)

lemma memory_ids_delete: "memory_ids mm - {iid} \<subseteq> memory_ids (snd (delete_item iid mm))"
  by (auto simp: memory_ids_def delete_item_def keys_delete)

lemma delete_item_categories:
  assumes wf: "categories_wf mm"
  shows "categories_wf (snd (delete_item iid mm))
         \<and> (\<forall>k c. (k, c) \<in> set (categories (snd (delete_item iid mm)))
                \<longrightarrow> iid \<notin> set (items c))"
proof (cases "map_of (short_term_memory mm) iid = None \<and> map_of (long_term_memory mm) iid = None")
  case True
  then have n: "iid \<notin> memory_ids mm"
    by (simp add: memory_ids_def map_of_None_iff)
  have "iid \<notin> set (items c)" if "(k, c) \<in> set (categories mm)" for k c
  proof -
    from wf that have "category_ok (memory_ids mm) c" unfolding categories_wf_iff by blast
    with n show ?thesis by (auto simp: category_ok_def)
  qed
  with True wf show ?thesis by (simp add: delete_item_def)
next
  case False
  let ?mm' = "snd (delete_item iid mm)"
  from False have c: "categories ?mm' = purge_categories iid (categories mm)"
    by (auto simp: delete_item_def)
  have both: "category_ok (memory_ids ?mm') c' \<and> iid \<notin> set (items c')"
    if "(k', c') \<in> set (categories ?mm')" for k' c'
  proof -
    from that obtain category where q: "(k', category) \<in> set (categories mm)"
      and p: "c' = purge_category iid category"
      unfolding c purge_categories_def by auto
    from wf q have "category_ok (memory_ids mm) category"
      unfolding categories_wf_iff by blast
    from purge_category_ok[OF this memory_ids_delete] show ?thesis unfolding p .
  qed
  have "categories_wf ?mm'"
    unfolding categories_wf_iff using both by blast
  moreover have "\<forall>k c. (k, c) \<in> set (categories ?mm') \<longrightarrow> iid \<notin> set (items c)"
    using both by blast
  ultimately show ?thesis by (rule conjI)
qed

end
